theory Spec2Isabelle
  imports Complex_Main "HOL-Library.AList"
begin

section \<open>Values, configuration and table rows\<close>

text \<open>
  The plugin is TypeScript running on the Koishi framework. Its own code (core.ts) is
  embedded function by function; the framework's database, HTTP client and bot adapter
  are the environment, answered by oracles (record \<open>env\<close> below).

  Strings are byte lists (UTF-8); a request body of type \<open>any\<close> is an object whose
  fields hold JSON scalars, kept as an association list in field order.
\<close>

datatype json = JNull | JBool bool | JNum int | JStr string

text \<open>JavaScript truthiness, as \<open>||\<close> and \<open>!\<close> read a value.\<close>

definition truthy :: "json \<Rightarrow> bool" where
  "truthy v = (case v of JNull \<Rightarrow> False | JBool b \<Rightarrow> b | JNum n \<Rightarrow> n \<noteq> 0 | JStr s \<Rightarrow> s \<noteq> [])"

type_synonym payload = "(string \<times> json) list"

text \<open>An optional array read as \<open>xs || []\<close>.\<close>

definition array_or_empty :: "'a list option \<Rightarrow> 'a list" where
  "array_or_empty xs = (case xs of Some ys \<Rightarrow> ys | None \<Rightarrow> [])"

datatype guild_mode = Off | Notify | Kick | Both

record PluginConfig =
  remoteApiUrl :: string
  apiToken :: string
  adminRoles :: "string list option"
  protectedUsers :: "string list option"
  defaultGuildMode :: guild_mode
  enableAutoReject :: bool
  skipBotMembers :: bool
  retryAttempts :: real
  retryDelay :: real
  verifyKickResult :: bool
  rejectionMessage :: string
  adminNotifyMessage :: string
  kickNotifyMessage :: string
  kickFailMessage :: string
  autoRejectNotifyMessage :: string

text \<open>types.ts: the rows of the five tables. A column that may be unset is an option.\<close>

record BlacklistEntry =
  bl_user_id :: string
  bl_reason :: string
  bl_operator_id :: "string option"
  bl_source_id :: "string option"
  bl_disabled :: bool
  bl_updated_at :: "int option"

record WhitelistEntry =
  wl_user_id :: string
  wl_reason :: "string option"
  wl_operator_id :: "string option"
  wl_created_at :: "int option"

datatype request_type = ADD | REMOVE | CANCEL

record OfflineRequest =
  req_id :: json
  req_type :: request_type
  req_payload :: payload
  createdAt :: int
  retryCount :: nat

text \<open>
  Rows as the remote authority delivers them: JSON objects that name the key and any
  subset of the other columns.
\<close>

record BlacklistRow =
  row_user_id :: string
  row_reason :: "string option"
  row_operator_id :: "string option"
  row_source_id :: "string option"
  row_disabled :: "bool option"
  row_updated_at :: "int option"

record WhitelistRow =
  wrow_user_id :: string
  wrow_reason :: "string option"
  wrow_operator_id :: "string option"
  wrow_created_at :: "int option"

text \<open>The body of a \<open>/sync\<close> response: \<open>{strategy, newRevision, data}\<close>.\<close>

record sync_object =
  d_blacklist :: "BlacklistRow list option"
  d_whitelist :: "WhitelistRow list option"
  d_upserts :: "BlacklistRow list option"
  d_deletes :: "string list option"
  d_whitelist_upserts :: "WhitelistRow list option"
  d_whitelist_deletes :: "string list option"

datatype sync_data = DataMissing | DataArray "BlacklistRow list" | DataObject sync_object

record sync_response =
  strategy :: string
  newRevision :: string
  sync_payload :: sync_data

text \<open>
  What a rejected HTTP call throws: \<open>error.code\<close>, and whether \<open>error.response\<close>
  is set (the server answered).
\<close>

record http_error =
  err_code :: "string option"
  err_response :: bool
  err_message :: string

datatype error = StoreError | RequestError http_error | TypeError | DirectoryError string

datatype sync_reply = SyncFail http_error | SyncOk "sync_response option"

text \<open>A guild member as the bot adapter returns it.\<close>

record member =
  nick :: "string option"
  user_name :: "string option"
  roles :: "string list option"

datatype member_reply = MemberFail string | MemberNull | MemberOk member

record Session =
  guildId :: "string option"
  messageId :: "string option"

section \<open>The world: tables, the queue lock, and the history of interactions\<close>

datatype db_op = DbGet | DbCreate | DbUpsert | DbRemove | DbSet

text \<open>
  What the plugin does to the outside, in the order it happens: a store call on a table;
  an HTTP POST of a body to a URL; a member lookup and a removal (group, member; a
  removal with its outcome); a message sent to the session's group, with the id of the
  message it quotes, if any; a timed delay in milliseconds. Headers, timeouts and log
  lines are left out.
\<close>

datatype event =
    Db db_op string
  | HttpPost string payload
  | GetGuildMember string string
  | KickGuildMember string string bool
  | Send "string option" string
  | Sleep real

text \<open>
  The store is Koishi's database service, an external collaborator that "exposes
  get/create/upsert/remove/set over named collections keyed by declared primary keys".
  A table keyed by its primary key is a map; the request queue is read in creation order,
  so it is a list of rows.
  \<open>isProcessingQueue\<close> is the module-level lock of core.ts.

  \<open>history\<close> lists the interactions issued so far, and \<open>lock_trace\<close> runs parallel
  to it: for each interaction, whether \<open>isProcessingQueue\<close> was set when it was issued.
  An awaited interaction is where other code of the plugin can run, so this is the lock
  that an invocation arriving during that interaction finds.
\<close>

record world =
  blacklist_users :: "string \<rightharpoonup> BlacklistEntry"
  blacklist_whitelist :: "string \<rightharpoonup> WhitelistEntry"
  blacklist_request_queue :: "OfflineRequest list"
  blacklist_meta :: "string \<rightharpoonup> string"
  blacklist_guild_settings :: "string \<rightharpoonup> guild_mode"
  isProcessingQueue :: bool
  history :: "event list"
  lock_trace :: "bool list"

text \<open>
  The environment answers every interaction from the history so far: whether the store
  call issued now fails; what the remote authority replies to a pull, and whether it
  takes an application (\<open>None\<close>) or the POST throws; what the bot adapter returns for a
  member lookup; whether a removal succeeds (\<open>None\<close>) or throws an exception that prints
  as the given text; whether a message goes out; which UUID is drawn; what the clock
  reads.

  \<open>toLowerCase\<close> is \<open>String.prototype.toLowerCase\<close> of the JavaScript runtime, the
  Unicode lower-case mapping on strings. It is not code of this repository and is a
  parameter here: what is proved holds for every such mapping.
\<close>

record env =
  db_fault :: "event list \<Rightarrow> bool"
  http_post_sync :: "event list \<Rightarrow> string \<Rightarrow> payload \<Rightarrow> sync_reply"
  http_post_applications :: "event list \<Rightarrow> string \<Rightarrow> payload \<Rightarrow> http_error option"
  getGuildMember :: "event list \<Rightarrow> string \<Rightarrow> string \<Rightarrow> member_reply"
  kickGuildMember :: "event list \<Rightarrow> string \<Rightarrow> string \<Rightarrow> string option"
  send :: "event list \<Rightarrow> string option \<Rightarrow> string \<Rightarrow> bool"
  randomUUID :: "event list \<Rightarrow> string"
  now :: "event list \<Rightarrow> int"
  toLowerCase :: "string \<Rightarrow> string"

section \<open>Asynchronous code as state passing with exceptions\<close>

type_synonym 'a io = "world \<Rightarrow> (error + 'a) \<times> world"

definition ret :: "'a \<Rightarrow> 'a io" where
  "ret x w = (Inr x, w)"

definition throw :: "error \<Rightarrow> 'a io" where
  "throw err w = (Inl err, w)"

definition bnd :: "'a io \<Rightarrow> ('a \<Rightarrow> 'b io) \<Rightarrow> 'b io" where
  "bnd m f w = (case m w of (Inl err, w') \<Rightarrow> (Inl err, w') | (Inr x, w') \<Rightarrow> f x w')"

definition try_catch :: "'a io \<Rightarrow> (error \<Rightarrow> 'a io) \<Rightarrow> 'a io" where
  "try_catch m h w = (case m w of (Inl err, w') \<Rightarrow> h err w' | (Inr x, w') \<Rightarrow> (Inr x, w'))"

definition finally_do :: "'a io \<Rightarrow> (world \<Rightarrow> world) \<Rightarrow> 'a io" where
  "finally_do m fin w = (case m w of (r, w') \<Rightarrow> (r, fin w'))"

definition record_event :: "event \<Rightarrow> world \<Rightarrow> world" where
  "record_event ev w =
     w\<lparr>history := history w @ [ev], lock_trace := lock_trace w @ [isProcessingQueue w]\<rparr>"

section \<open>Store operations\<close>

text \<open>
  Every store call is recorded, then either fails as a whole (leaving the tables as they
  were) or takes effect.
\<close>

definition db_call :: "env \<Rightarrow> db_op \<Rightarrow> string \<Rightarrow> (world \<Rightarrow> 'a \<times> world) \<Rightarrow> 'a io" where
  "db_call e op tbl f w =
     (if db_fault e (history w) then (Inl StoreError, record_event (Db op tbl) w)
      else (case f (record_event (Db op tbl) w) of (x, w') \<Rightarrow> (Inr x, w')))"

definition db_get_meta :: "env \<Rightarrow> string \<Rightarrow> string option io" where
  "db_get_meta e k = db_call e DbGet ''blacklist_meta'' (\<lambda>w. (blacklist_meta w k, w))"

definition db_upsert_meta :: "env \<Rightarrow> string \<Rightarrow> string \<Rightarrow> unit io" where
  "db_upsert_meta e k v =
     db_call e DbUpsert ''blacklist_meta'' (\<lambda>w. ((), w\<lparr>blacklist_meta := (blacklist_meta w)(k \<mapsto> v)\<rparr>))"

text \<open>
  Upsert by primary key: a delivered row overwrites the columns it names in the stored
  row with its key, or is inserted over the initial values of the columns. The tables are
  declared in index.ts (\<open>ctx.model.extend\<close>): \<open>reason\<close>, \<open>operator_id\<close> and
  \<open>source_id\<close> are of type \<open>'string'\<close>, which the store initialises to the empty
  string; \<open>disabled\<close> is declared with \<open>initial: false\<close>; the timestamps have no
  initial value.
\<close>

definition merge_blacklist :: "BlacklistEntry option \<Rightarrow> BlacklistRow \<Rightarrow> BlacklistEntry" where
  "merge_blacklist old r =
     (let base = (case old of
                    Some b \<Rightarrow> b
                  | None \<Rightarrow> \<lparr>bl_user_id = row_user_id r, bl_reason = [], bl_operator_id = Some [],
                             bl_source_id = Some [], bl_disabled = False, bl_updated_at = None\<rparr>)
      in \<lparr>bl_user_id = row_user_id r,
          bl_reason = (case row_reason r of Some x \<Rightarrow> x | None \<Rightarrow> bl_reason base),
          bl_operator_id = (case row_operator_id r of Some x \<Rightarrow> Some x | None \<Rightarrow> bl_operator_id base),
          bl_source_id = (case row_source_id r of Some x \<Rightarrow> Some x | None \<Rightarrow> bl_source_id base),
          bl_disabled = (case row_disabled r of Some x \<Rightarrow> x | None \<Rightarrow> bl_disabled base),
          bl_updated_at = (case row_updated_at r of Some x \<Rightarrow> Some x | None \<Rightarrow> bl_updated_at base)\<rparr>)"

definition merge_whitelist :: "WhitelistEntry option \<Rightarrow> WhitelistRow \<Rightarrow> WhitelistEntry" where
  "merge_whitelist old r =
     (let base = (case old of
                    Some b \<Rightarrow> b
                  | None \<Rightarrow> \<lparr>wl_user_id = wrow_user_id r, wl_reason = Some [],
                             wl_operator_id = Some [], wl_created_at = None\<rparr>)
      in \<lparr>wl_user_id = wrow_user_id r,
          wl_reason = (case wrow_reason r of Some x \<Rightarrow> Some x | None \<Rightarrow> wl_reason base),
          wl_operator_id = (case wrow_operator_id r of Some x \<Rightarrow> Some x | None \<Rightarrow> wl_operator_id base),
          wl_created_at = (case wrow_created_at r of Some x \<Rightarrow> Some x | None \<Rightarrow> wl_created_at base)\<rparr>)"

definition upsert_user :: "BlacklistRow \<Rightarrow> (string \<rightharpoonup> BlacklistEntry) \<Rightarrow> (string \<rightharpoonup> BlacklistEntry)" where
  "upsert_user r t = t(row_user_id r \<mapsto> merge_blacklist (t (row_user_id r)) r)"

definition upsert_white :: "WhitelistRow \<Rightarrow> (string \<rightharpoonup> WhitelistEntry) \<Rightarrow> (string \<rightharpoonup> WhitelistEntry)" where
  "upsert_white r t = t(wrow_user_id r \<mapsto> merge_whitelist (t (wrow_user_id r)) r)"

definition db_upsert_users :: "env \<Rightarrow> BlacklistRow list \<Rightarrow> unit io" where
  "db_upsert_users e rows =
     db_call e DbUpsert ''blacklist_users''
       (\<lambda>w. ((), w\<lparr>blacklist_users := fold upsert_user rows (blacklist_users w)\<rparr>))"

definition db_upsert_whitelist :: "env \<Rightarrow> WhitelistRow list \<Rightarrow> unit io" where
  "db_upsert_whitelist e rows =
     db_call e DbUpsert ''blacklist_whitelist''
       (\<lambda>w. ((), w\<lparr>blacklist_whitelist := fold upsert_white rows (blacklist_whitelist w)\<rparr>))"

text \<open>\<open>remove(table, {})\<close> deletes every row; \<open>remove(table, {user_id: ids})\<close> the listed keys.\<close>

definition db_remove_all_users :: "env \<Rightarrow> unit io" where
  "db_remove_all_users e =
     db_call e DbRemove ''blacklist_users'' (\<lambda>w. ((), w\<lparr>blacklist_users := Map.empty\<rparr>))"

definition db_remove_all_whitelist :: "env \<Rightarrow> unit io" where
  "db_remove_all_whitelist e =
     db_call e DbRemove ''blacklist_whitelist'' (\<lambda>w. ((), w\<lparr>blacklist_whitelist := Map.empty\<rparr>))"

definition remove_keys :: "string list \<Rightarrow> (string \<rightharpoonup> 'a) \<Rightarrow> (string \<rightharpoonup> 'a)" where
  "remove_keys ks t = (\<lambda>k. if k \<in> set ks then None else t k)"

definition db_remove_users :: "env \<Rightarrow> string list \<Rightarrow> unit io" where
  "db_remove_users e ks =
     db_call e DbRemove ''blacklist_users''
       (\<lambda>w. ((), w\<lparr>blacklist_users := remove_keys ks (blacklist_users w)\<rparr>))"

definition db_remove_whitelist :: "env \<Rightarrow> string list \<Rightarrow> unit io" where
  "db_remove_whitelist e ks =
     db_call e DbRemove ''blacklist_whitelist''
       (\<lambda>w. ((), w\<lparr>blacklist_whitelist := remove_keys ks (blacklist_whitelist w)\<rparr>))"

section \<open>syncBlacklist\<close>

text \<open>
  \<open>ctx.http.post(url + '/sync', {revision, instanceId}, ...)\<close>: the call is recorded and
  either rejects or resolves to the response body. A field whose value is undefined is
  not sent.
\<close>

definition post_sync :: "env \<Rightarrow> PluginConfig \<Rightarrow> string \<Rightarrow> string option \<Rightarrow> sync_response option io" where
  "post_sync e config revision instanceId w =
     (let url = remoteApiUrl config @ ''/sync'';
          body = (''revision'', JStr revision) #
                 (case instanceId of Some i \<Rightarrow> [(''instanceId'', JStr i)] | None \<Rightarrow> [])
      in case http_post_sync e (history w) url body of
           SyncFail err \<Rightarrow> (Inl (RequestError err), record_event (HttpPost url body) w)
         | SyncOk r \<Rightarrow> (Inr r, record_event (HttpPost url body) w))"

text \<open>
  The two batch loops of the full replace:
  \<open>for (let i = 0; i < rows.length; i += 100) await upsert(table, rows.slice(i, i + 100))\<close>.
\<close>

function upsert_users_batched :: "env \<Rightarrow> BlacklistRow list \<Rightarrow> nat \<Rightarrow> unit io" where
  "upsert_users_batched e rows i w =
     (if i < length rows
      then (case db_upsert_users e (take 100 (drop i rows)) w of
              (Inl err, w') \<Rightarrow> (Inl err, w')
            | (Inr u, w') \<Rightarrow> upsert_users_batched e rows (i + 100) w')
      else (Inr (), w))"
  by pat_completeness auto
termination
  by (relation "measure (\<lambda>(e, rows, i, w). length rows - i)") auto

function upsert_whitelist_batched :: "env \<Rightarrow> WhitelistRow list \<Rightarrow> nat \<Rightarrow> unit io" where
  "upsert_whitelist_batched e rows i w =
     (if i < length rows
      then (case db_upsert_whitelist e (take 100 (drop i rows)) w of
              (Inl err, w') \<Rightarrow> (Inl err, w')
            | (Inr u, w') \<Rightarrow> upsert_whitelist_batched e rows (i + 100) w')
      else (Inr (), w))"
  by pat_completeness auto
termination
  by (relation "measure (\<lambda>(e, rows, i, w). length rows - i)") auto

text \<open>
  The \<open>full_replace\<close> branch.
  \<open>blacklistData = Array.isArray(data) ? data : (data.blacklist || [])\<close> and
  \<open>whitelistData = Array.isArray(data) ? [] : (data.whitelist || [])\<close>; on a missing
  \<open>data\<close> the field access is a TypeError, raised after both tables were cleared.
  The result is \<open>hasNewEntries\<close>.
\<close>

definition blacklistData :: "sync_data \<Rightarrow> BlacklistRow list" where
  "blacklistData d =
     (case d of
        DataArray rows \<Rightarrow> rows
      | DataObject obj \<Rightarrow> (case d_blacklist obj of Some rows \<Rightarrow> rows | None \<Rightarrow> [])
      | DataMissing \<Rightarrow> [])"

definition whitelistData :: "sync_data \<Rightarrow> WhitelistRow list" where
  "whitelistData d =
     (case d of
        DataArray rows \<Rightarrow> []
      | DataObject obj \<Rightarrow> (case d_whitelist obj of Some rows \<Rightarrow> rows | None \<Rightarrow> [])
      | DataMissing \<Rightarrow> [])"

definition full_replace :: "env \<Rightarrow> sync_data \<Rightarrow> bool io" where
  "full_replace e d =
     bnd (db_remove_all_users e) (\<lambda>_.
     bnd (db_remove_all_whitelist e) (\<lambda>_.
     if d = DataMissing then throw TypeError
     else
       bnd (if blacklistData d \<noteq> []
            then bnd (upsert_users_batched e (blacklistData d) 0) (\<lambda>_. ret True)
            else ret False) (\<lambda>hasNewEntries.
       bnd (if whitelistData d \<noteq> []
            then upsert_whitelist_batched e (whitelistData d) 0
            else ret ()) (\<lambda>_.
       ret hasNewEntries))))"

text \<open>
  The \<open>incremental\<close> branch: \<open>data.upserts?.length\<close> is truthy for a non-empty array
  only; on a bare array every field is undefined; on a missing \<open>data\<close> the first field
  access is a TypeError.
\<close>

definition when_nonempty :: "'a list option \<Rightarrow> ('a list \<Rightarrow> unit io) \<Rightarrow> unit io" where
  "when_nonempty xs f = (case xs of Some (x # rest) \<Rightarrow> f (x # rest) | _ \<Rightarrow> ret ())"

definition incremental :: "env \<Rightarrow> sync_data \<Rightarrow> bool io" where
  "incremental e d =
     (case d of
        DataMissing \<Rightarrow> throw TypeError
      | DataArray rows \<Rightarrow> ret False
      | DataObject obj \<Rightarrow>
          bnd (when_nonempty (d_upserts obj) (db_upsert_users e)) (\<lambda>_.
          bnd (when_nonempty (d_deletes obj) (db_remove_users e)) (\<lambda>_.
          bnd (when_nonempty (d_whitelist_upserts obj) (db_upsert_whitelist e)) (\<lambda>_.
          bnd (when_nonempty (d_whitelist_deletes obj) (db_remove_whitelist e)) (\<lambda>_.
          ret (case d_upserts obj of Some (x # rest) \<Rightarrow> True | _ \<Rightarrow> False))))))"

text \<open>
  \<open>syncBlacklist\<close>: \<open>sync_attempt\<close> is the body of its \<open>try\<close>, and the handler
  returns false. Destructuring a null response is a TypeError. Log lines are not
  modelled.
\<close>

definition sync_attempt :: "env \<Rightarrow> PluginConfig \<Rightarrow> bool io" where
  "sync_attempt e config =
     bnd (db_get_meta e ''sync_revision'') (\<lambda>meta.
     bnd (db_get_meta e ''instance_uuid'') (\<lambda>instanceId.
     bnd (post_sync e config (case meta of Some v \<Rightarrow> v | None \<Rightarrow> []) instanceId) (\<lambda>response.
     (case response of
        None \<Rightarrow> throw TypeError
      | Some r \<Rightarrow>
          if strategy r = ''up-to-date'' then ret False
          else bnd (if strategy r = ''full_replace'' then full_replace e (sync_payload r)
                    else if strategy r = ''incremental'' then incremental e (sync_payload r)
                    else ret False)
                 (\<lambda>hasNewEntries.
                  bnd (db_upsert_meta e ''sync_revision'' (newRevision r)) (\<lambda>_.
                  ret hasNewEntries))))))"

definition syncBlacklist :: "env \<Rightarrow> PluginConfig \<Rightarrow> bool io" where
  "syncBlacklist e config = try_catch (sync_attempt e config) (\<lambda>err. ret False)"

section \<open>queueRequest\<close>

text \<open>
  \<open>create\<close> inserts one row and rejects a row whose primary key is already present.
\<close>

definition db_create_request :: "env \<Rightarrow> OfflineRequest \<Rightarrow> unit io" where
  "db_create_request e row w =
     (if db_fault e (history w) \<or> req_id row \<in> req_id ` set (blacklist_request_queue w)
      then (Inl StoreError, record_event (Db DbCreate ''blacklist_request_queue'') w)
      else (Inr (), (record_event (Db DbCreate ''blacklist_request_queue'') w)
                      \<lparr>blacklist_request_queue := blacklist_request_queue w @ [row]\<rparr>))"

text \<open>
  \<open>const requestId = payload.requestId || randomUUID(); payload.requestId = requestId\<close>:
  the field read is \<open>requestId\<close>, and assigning it keeps an existing field in place or
  appends a new one.
\<close>

definition queueRequest :: "env \<Rightarrow> request_type \<Rightarrow> payload \<Rightarrow> json io" where
  "queueRequest e ty payload w =
     (let requestId = (case map_of payload ''requestId'' of
                         Some v \<Rightarrow> if truthy v then v else JStr (randomUUID e (history w))
                       | None \<Rightarrow> JStr (randomUUID e (history w)))
      in bnd (db_create_request e
                \<lparr>req_id = requestId, req_type = ty,
                 req_payload = AList.update ''requestId'' requestId payload,
                 createdAt = now e (history w), retryCount = 0\<rparr>)
           (\<lambda>_. ret requestId) w)"

text \<open>
  index.ts, the \<open>blacklist.request\<close> action: the payload it submits and, when the
  submission fails, hands to \<open>queueRequest(ctx, 'ADD', payload)\<close>.
\<close>

definition request_payload :: "string \<Rightarrow> string \<Rightarrow> string \<Rightarrow> string \<Rightarrow> string \<Rightarrow> int \<Rightarrow> payload" where
  "request_payload requestId applicant userId reason guild timestamp =
     [(''request_id'', JStr requestId), (''type'', JStr ''ADD''), (''applicant_id'', JStr applicant),
      (''target_user_id'', JStr userId), (''reason'', JStr reason), (''guild_id'', JStr guild),
      (''timestamp'', JNum timestamp)]"

section \<open>processOfflineQueue\<close>

text \<open>
  \<open>get(queue, {}, {limit: 10, sort: {createdAt: 'asc'}})\<close>, \<open>remove(queue, {id})\<close> and
  \<open>set(queue, {id}, {retryCount})\<close>. Requests created at the same instant are read in
  the order they were stored.
\<close>

definition oldest_requests :: "OfflineRequest list \<Rightarrow> OfflineRequest list" where
  "oldest_requests q = take 10 (sort_key createdAt q)"

definition db_get_queue :: "env \<Rightarrow> OfflineRequest list io" where
  "db_get_queue e =
     db_call e DbGet ''blacklist_request_queue''
       (\<lambda>w. (oldest_requests (blacklist_request_queue w), w))"

definition db_remove_request :: "env \<Rightarrow> json \<Rightarrow> unit io" where
  "db_remove_request e rid =
     db_call e DbRemove ''blacklist_request_queue''
       (\<lambda>w. ((), w\<lparr>blacklist_request_queue := filter (\<lambda>r. req_id r \<noteq> rid) (blacklist_request_queue w)\<rparr>))"

definition db_set_retryCount :: "env \<Rightarrow> json \<Rightarrow> nat \<Rightarrow> unit io" where
  "db_set_retryCount e rid n =
     db_call e DbSet ''blacklist_request_queue''
       (\<lambda>w. ((), w\<lparr>blacklist_request_queue :=
                      map (\<lambda>r. if req_id r = rid then r\<lparr>retryCount := n\<rparr> else r) (blacklist_request_queue w)\<rparr>))"

text \<open>
  The delivery attempt: \<open>post(url + '/applications', {...item.payload, instanceId,
  isOfflineRetry: true})\<close>. An undefined \<open>instanceId\<close> is not sent.
\<close>

definition offline_body :: "string option \<Rightarrow> OfflineRequest \<Rightarrow> payload" where
  "offline_body instanceId item =
     AList.update ''isOfflineRetry'' (JBool True)
       (case instanceId of
          Some i \<Rightarrow> AList.update ''instanceId'' (JStr i) (req_payload item)
        | None \<Rightarrow> AList.delete ''instanceId'' (req_payload item))"

definition applications_url :: "PluginConfig \<Rightarrow> string" where
  "applications_url config = remoteApiUrl config @ ''/applications''"

definition post_application :: "env \<Rightarrow> PluginConfig \<Rightarrow> string option \<Rightarrow> OfflineRequest \<Rightarrow> unit io" where
  "post_application e config instanceId item w =
     (let url = applications_url config; body = offline_body instanceId item
      in case http_post_applications e (history w) url body of
           Some err \<Rightarrow> (Inl (RequestError err), record_event (HttpPost url body) w)
         | None \<Rightarrow> (Inr (), record_event (HttpPost url body) w))"

text \<open>
  \<open>error.code === 'ECONNABORTED' || error.code === 'ENOTFOUND' || !error.response\<close>.
  An exception that is not an HTTP rejection has neither field.
\<close>

definition isNetworkError :: "error \<Rightarrow> bool" where
  "isNetworkError err =
     (case err of
        RequestError h \<Rightarrow>
          err_code h = Some ''ECONNABORTED'' \<or> err_code h = Some ''ENOTFOUND'' \<or> \<not> err_response h
      | _ \<Rightarrow> True)"

text \<open>One iteration of \<open>for (const item of queue)\<close>, and the loop.\<close>

definition process_item :: "env \<Rightarrow> PluginConfig \<Rightarrow> string option \<Rightarrow> OfflineRequest \<Rightarrow> unit io" where
  "process_item e config instanceId item =
     (if retryCount item > 5 then db_remove_request e (req_id item)
      else try_catch
             (bnd (post_application e config instanceId item) (\<lambda>_.
              db_remove_request e (req_id item)))
             (\<lambda>err. if isNetworkError err then ret ()
                    else db_set_retryCount e (req_id item) (retryCount item + 1)))"

fun drain_items :: "env \<Rightarrow> PluginConfig \<Rightarrow> string option \<Rightarrow> OfflineRequest list \<Rightarrow> unit io" where
  "drain_items e config instanceId [] w = (Inr (), w)"
| "drain_items e config instanceId (item # rest) w =
     (case process_item e config instanceId item w of
        (Inl err, w') \<Rightarrow> (Inl err, w')
      | (Inr u, w') \<Rightarrow> drain_items e config instanceId rest w')"

text \<open>
  The part of \<open>processOfflineQueue\<close> inside \<open>try\<close>, then the function itself with its
  lock, \<open>catch\<close> and \<open>finally\<close>.
\<close>

definition drain_attempt :: "env \<Rightarrow> PluginConfig \<Rightarrow> unit io" where
  "drain_attempt e config =
     bnd (db_get_queue e) (\<lambda>queue.
     if queue = [] then ret ()
     else bnd (db_get_meta e ''instance_uuid'') (\<lambda>instanceId.
          drain_items e config instanceId queue))"

definition processOfflineQueue :: "env \<Rightarrow> PluginConfig \<Rightarrow> unit io" where
  "processOfflineQueue e config w =
     (if isProcessingQueue w then (Inr (), w)
      else finally_do (try_catch (drain_attempt e config) (\<lambda>err. ret ()))
             (\<lambda>w'. w'\<lparr>isProcessingQueue := False\<rparr>)
             (w\<lparr>isProcessingQueue := True\<rparr>))"

section \<open>checkAndHandleUser\<close>

text \<open>
  \<open>String.prototype.replace\<close> with a string pattern: the first occurrence is replaced,
  and in the replacement \<open>$$\<close>, \<open>$&\<close>, \<open>$`\<close> and \<open>$'\<close> stand for a dollar sign, the
  match, the text before it and the text after it.
\<close>

fun find_first :: "string \<Rightarrow> string \<Rightarrow> (string \<times> string) option" where
  "find_first pat [] = (if pat = [] then Some ([], []) else None)"
| "find_first pat (c # cs) =
     (if take (length pat) (c # cs) = pat then Some ([], drop (length pat) (c # cs))
      else map_option (\<lambda>(before, after). (c # before, after)) (find_first pat cs))"

fun substitution :: "string \<Rightarrow> string \<Rightarrow> string \<Rightarrow> string \<Rightarrow> string" where
  "substitution matched before after (c # d # rest) =
     (if c = CHR ''$'' \<and> d = CHR ''$'' then CHR ''$'' # substitution matched before after rest
      else if c = CHR ''$'' \<and> d = CHR ''&'' then matched @ substitution matched before after rest
      else if c = CHR ''$'' \<and> d = CHR 0x60 then before @ substitution matched before after rest
      else if c = CHR ''$'' \<and> d = CHR 0x27 then after @ substitution matched before after rest
      else c # substitution matched before after (d # rest))"
| "substitution matched before after cs = cs"

definition js_replace :: "string \<Rightarrow> string \<Rightarrow> string \<Rightarrow> string" where
  "js_replace pat replacement s =
     (case find_first pat s of
        None \<Rightarrow> s
      | Some (before, after) \<Rightarrow> before @ substitution pat before after replacement @ after)"

text \<open>
  The lower-case mapping of the example environments: what \<open>toLowerCase\<close> does to a
  string of ASCII and Latin-1 letters. In UTF-8 the letters \<open>A\<close> to \<open>Z\<close> are the bytes 65
  to 90, and the Latin-1 capitals are the byte 0xC3 followed by 0x80 to 0x9E (0x97, the
  multiplication sign, apart); the small letter is 32 further on.
\<close>

fun latin_toLowerCase :: "string \<Rightarrow> string" where
  "latin_toLowerCase (c # d # rest) =
     (if (of_char c :: nat) = 0xC3
      then c # (if 0x80 \<le> (of_char d :: nat) \<and> (of_char d :: nat) \<le> 0x9E \<and> (of_char d :: nat) \<noteq> 0x97
                then char_of (of_char d + 32 :: nat) else d) # latin_toLowerCase rest
      else (if 65 \<le> (of_char c :: nat) \<and> (of_char c :: nat) \<le> 90
            then char_of (of_char c + 32 :: nat) else c) # latin_toLowerCase (d # rest))"
| "latin_toLowerCase [c] =
     [if 65 \<le> (of_char c :: nat) \<and> (of_char c :: nat) \<le> 90 then char_of (of_char c + 32 :: nat) else c]"
| "latin_toLowerCase [] = []"

text \<open>The bot adapter's calls; each is recorded, and may reject.\<close>

definition call_getGuildMember :: "env \<Rightarrow> string \<Rightarrow> string \<Rightarrow> member option io" where
  "call_getGuildMember e g u w =
     (case getGuildMember e (history w) g u of
        MemberFail msg \<Rightarrow> (Inl (DirectoryError msg), record_event (GetGuildMember g u) w)
      | MemberNull \<Rightarrow> (Inr None, record_event (GetGuildMember g u) w)
      | MemberOk m \<Rightarrow> (Inr (Some m), record_event (GetGuildMember g u) w))"

definition call_kickGuildMember :: "env \<Rightarrow> string \<Rightarrow> string \<Rightarrow> unit io" where
  "call_kickGuildMember e g u w =
     (case kickGuildMember e (history w) g u of
        None \<Rightarrow> (Inr (), record_event (KickGuildMember g u True) w)
      | Some msg \<Rightarrow> (Inl (DirectoryError msg), record_event (KickGuildMember g u False) w))"

definition call_send :: "env \<Rightarrow> string option \<Rightarrow> string \<Rightarrow> unit io" where
  "call_send e quote msg w =
     (if send e (history w) quote msg then (Inr (), record_event (Send quote msg) w)
      else (Inl (DirectoryError ''send''), record_event (Send quote msg) w))"

definition sleep :: "real \<Rightarrow> unit io" where
  "sleep ms w = (Inr (), record_event (Sleep ms) w)"

text \<open>\<open>String(e)\<close> of a caught exception.\<close>

definition error_text :: "error \<Rightarrow> string" where
  "error_text err =
     (case err of
        DirectoryError msg \<Rightarrow> msg
      | RequestError h \<Rightarrow> err_message h
      | StoreError \<Rightarrow> ''Error: store''
      | TypeError \<Rightarrow> ''TypeError'')"

text \<open>\<open>if (!session.guildId) return false\<close>: an empty id is as good as none.\<close>

definition guild_of :: "Session \<Rightarrow> string option" where
  "guild_of session = (case guildId session of Some g \<Rightarrow> if g = [] then None else Some g | None \<Rightarrow> None)"

text \<open>
  The role test of \<open>isUserAdmin\<close>: both role lists are lower-cased, and one common
  role suffices.
\<close>

definition has_admin_role :: "env \<Rightarrow> PluginConfig \<Rightarrow> member \<Rightarrow> bool" where
  "has_admin_role e config m =
     (let allowedRoles = map (toLowerCase e)
            (case adminRoles config of Some rs \<Rightarrow> rs | None \<Rightarrow> [''owner'', ''admin'']);
          userRoles = map (toLowerCase e) (case roles m of Some rs \<Rightarrow> rs | None \<Rightarrow> [])
      in list_ex (\<lambda>role. role \<in> set allowedRoles) userRoles)"

definition isUserAdmin :: "env \<Rightarrow> Session \<Rightarrow> PluginConfig \<Rightarrow> string \<Rightarrow> bool io" where
  "isUserAdmin e session config userId =
     (case guild_of session of
        None \<Rightarrow> ret False
      | Some g \<Rightarrow>
          try_catch
            (bnd (call_getGuildMember e g userId) (\<lambda>found.
             case found of
               None \<Rightarrow> ret False
             | Some m \<Rightarrow> ret (has_admin_role e config m)))
            (\<lambda>err. ret False))"

text \<open>The three reads of \<open>checkAndHandleUser\<close>; the blacklist read filters \<open>disabled: false\<close>.\<close>

definition db_get_guild_settings :: "env \<Rightarrow> string \<Rightarrow> guild_mode option io" where
  "db_get_guild_settings e g =
     db_call e DbGet ''blacklist_guild_settings'' (\<lambda>w. (blacklist_guild_settings w g, w))"

definition db_get_whitelist :: "env \<Rightarrow> string \<Rightarrow> WhitelistEntry option io" where
  "db_get_whitelist e u =
     db_call e DbGet ''blacklist_whitelist'' (\<lambda>w. (blacklist_whitelist w u, w))"

definition db_get_active_user :: "env \<Rightarrow> string \<Rightarrow> BlacklistEntry option io" where
  "db_get_active_user e u =
     db_call e DbGet ''blacklist_users''
       (\<lambda>w. (case blacklist_users w u of
                Some b \<Rightarrow> if bl_disabled b then None else Some b
              | None \<Rightarrow> None, w))"

text \<open>The fallback reason \<open>'QQ\<dots>'\<close> of the source, as its UTF-8 bytes.\<close>

definition default_reason :: string where
  "default_reason =
     ''QQ'' @ [CHR 0xE5, CHR 0x8F, CHR 0xB7, CHR 0xE9, CHR 0xBB, CHR 0x91,
               CHR 0xE5, CHR 0x90, CHR 0x8D, CHR 0xE5, CHR 0x8D, CHR 0x95]"

text \<open>
  Display name: \<open>member.nick || member.user?.name || user_id\<close>, and \<open>user_id\<close> when the
  lookup throws (reading \<open>nick\<close> of a null member throws too).
\<close>

definition displayName_of :: "member \<Rightarrow> string \<Rightarrow> string" where
  "displayName_of m user_id =
     (case nick m of
        Some n \<Rightarrow> if n \<noteq> [] then n
                  else (case user_name m of Some u \<Rightarrow> if u \<noteq> [] then u else user_id | None \<Rightarrow> user_id)
      | None \<Rightarrow> (case user_name m of Some u \<Rightarrow> if u \<noteq> [] then u else user_id | None \<Rightarrow> user_id))"

definition resolve_displayName :: "env \<Rightarrow> string \<Rightarrow> string \<Rightarrow> string io" where
  "resolve_displayName e g user_id =
     try_catch
       (bnd (call_getGuildMember e g user_id) (\<lambda>found.
        case found of
          None \<Rightarrow> throw TypeError
        | Some m \<Rightarrow> ret (displayName_of m user_id)))
       (\<lambda>err. ret user_id)"

definition notify_message :: "PluginConfig \<Rightarrow> guild_mode \<Rightarrow> string \<Rightarrow> string \<Rightarrow> string \<Rightarrow> string \<Rightarrow> string" where
  "notify_message config mode displayName user_id reason g =
     js_replace ''{guild}'' g
       (js_replace ''{reason}'' reason
          (js_replace ''{userId}'' user_id
             (js_replace ''{user}'' displayName
                (if mode = Notify then adminNotifyMessage config else kickNotifyMessage config))))"

definition notify :: "env \<Rightarrow> PluginConfig \<Rightarrow> Session \<Rightarrow> guild_mode \<Rightarrow> string \<Rightarrow> string \<Rightarrow> string \<Rightarrow> string \<Rightarrow> unit io" where
  "notify e config session mode displayName user_id reason g =
     (if mode = Notify \<or> mode = Both
      then try_catch
             (call_send e (case messageId session of Some i \<Rightarrow> if i = [] then None else Some i | None \<Rightarrow> None)
                (notify_message config mode displayName user_id reason g))
             (\<lambda>err. ret ())
      else ret ())"

definition fail_message :: "PluginConfig \<Rightarrow> string \<Rightarrow> string \<Rightarrow> string" where
  "fail_message config displayName err_text =
     js_replace ''{reason}'' err_text (js_replace ''{user}'' displayName (kickFailMessage config))"

text \<open>
  The removal loop \<open>for (let i = 0; i < config.retryAttempts; i++)\<close>: a successful kick
  breaks out with \<open>kicked = true\<close>; a failed one sleeps, or on the last round sends the
  failure message. The result is \<open>kicked\<close>. \<open>retryAttempts\<close> is a \<open>Schema.number()\<close>,
  any finite number: a count that is zero or negative skips the loop, a fractional one is
  compared with the integer counter as it stands.
\<close>

function kick_loop :: "env \<Rightarrow> PluginConfig \<Rightarrow> string \<Rightarrow> string \<Rightarrow> string \<Rightarrow> nat \<Rightarrow> bool io" where
  "kick_loop e config g user_id displayName i w =
     (if real i < retryAttempts config
      then (case call_kickGuildMember e g user_id w of
              (Inr u, w') \<Rightarrow> (Inr True, w')
            | (Inl err, w') \<Rightarrow>
                (case (if real i < retryAttempts config - 1 then sleep (retryDelay config) w'
                       else try_catch (call_send e None (fail_message config displayName (error_text err)))
                              (\<lambda>err'. ret ()) w') of
                   (Inl err', w'') \<Rightarrow> (Inl err', w'')
                 | (Inr u, w'') \<Rightarrow> kick_loop e config g user_id displayName (i + 1) w''))
      else (Inr False, w))"
  by pat_completeness auto
termination
  by (relation "measure (\<lambda>(e, config, g, user_id, displayName, i, w). nat \<lceil>retryAttempts config\<rceil> - i)")
    (auto, linarith)

definition verify_kick :: "env \<Rightarrow> PluginConfig \<Rightarrow> string \<Rightarrow> string \<Rightarrow> bool \<Rightarrow> unit io" where
  "verify_kick e config g user_id kicked =
     (if kicked \<and> verifyKickResult config
      then bnd (sleep 2000) (\<lambda>_.
           try_catch (bnd (call_getGuildMember e g user_id) (\<lambda>_. ret ())) (\<lambda>err. ret ()))
      else ret ())"

definition checkAndHandleUser :: "env \<Rightarrow> PluginConfig \<Rightarrow> Session \<Rightarrow> string \<Rightarrow> bool io" where
  "checkAndHandleUser e config session user_id =
     (case guild_of session of
        None \<Rightarrow> ret False
      | Some g \<Rightarrow>
          bnd (db_get_guild_settings e g) (\<lambda>guildSettings.
          let mode = (case guildSettings of Some m \<Rightarrow> m | None \<Rightarrow> defaultGuildMode config) in
          if mode = Off then ret False
          else if user_id \<in> set (array_or_empty (protectedUsers config)) then ret False
          else
            bnd (db_get_whitelist e user_id) (\<lambda>whitelistEntries.
            if whitelistEntries \<noteq> None then ret False
            else
              bnd (db_get_active_user e user_id) (\<lambda>entries.
              case entries of
                None \<Rightarrow> ret False
              | Some entry \<Rightarrow>
                  bnd (isUserAdmin e session config user_id) (\<lambda>admin.
                  if admin then ret False
                  else
                    bnd (resolve_displayName e g user_id) (\<lambda>displayName.
                    bnd (notify e config session mode displayName user_id
                           (if bl_reason entry \<noteq> [] then bl_reason entry else default_reason) g) (\<lambda>_.
                    if mode = Kick \<or> mode = Both
                    then bnd (kick_loop e config g user_id displayName 0) (\<lambda>kicked.
                         bnd (verify_kick e config g user_id kicked) (\<lambda>_.
                         ret kicked))
                    else ret False)))))))"

section \<open>Assumptions on the environment, and concrete inputs\<close>

text \<open>The store never fails; the remote authority answers every pull with \<open>r\<close>.\<close>

definition store_ok :: "env \<Rightarrow> bool" where
  "store_ok e = (\<forall>h. \<not> db_fault e h)"

definition sync_answers :: "env \<Rightarrow> sync_response \<Rightarrow> bool" where
  "sync_answers e r = (\<forall>h url body. http_post_sync e h url body = SyncOk (Some r))"

text \<open>
  A configuration with the schema's default numbers and roles, an environment in which
  nothing fails and the remote authority is unreachable, and a freshly installed world.
\<close>

definition example_config :: PluginConfig where
  "example_config =
     \<lparr>remoteApiUrl = ''https://blacklist.example'', apiToken = ''secret'',
      adminRoles = Some [''owner'', ''admin''], protectedUsers = Some [''10001''],
      defaultGuildMode = Off, enableAutoReject = True, skipBotMembers = True,
      retryAttempts = 3, retryDelay = 2000, verifyKickResult = True,
      rejectionMessage = ''rejected'',
      adminNotifyMessage = ''Found {user} ({userId}): {reason}'',
      kickNotifyMessage = ''Removing {user} ({userId}): {reason}'',
      kickFailMessage = ''Cannot remove {user}: {reason}'',
      autoRejectNotifyMessage = ''Rejected {user} ({userId})''\<rparr>"

definition timeout_error :: http_error where
  "timeout_error = \<lparr>err_code = Some ''ECONNABORTED'', err_response = False, err_message = ''timeout''\<rparr>"

definition quiet_env :: env where
  "quiet_env =
     \<lparr>db_fault = (\<lambda>h. False),
      http_post_sync = (\<lambda>h url body. SyncFail timeout_error),
      http_post_applications = (\<lambda>h url body. Some timeout_error),
      getGuildMember = (\<lambda>h g u. MemberNull),
      kickGuildMember = (\<lambda>h g u. None),
      send = (\<lambda>h quote msg. True),
      randomUUID = (\<lambda>h. ''7d444840-9dc0-11d1-b245-5ffdce74fad2''),
      now = (\<lambda>h. 1700000000000),
      toLowerCase = latin_toLowerCase\<rparr>"

definition empty_world :: world where
  "empty_world =
     \<lparr>blacklist_users = Map.empty, blacklist_whitelist = Map.empty, blacklist_request_queue = [],
      blacklist_meta = Map.empty, blacklist_guild_settings = Map.empty,
      isProcessingQueue = False, history = [], lock_trace = []\<rparr>"

text \<open>
  The response of the full-replace scenario: one block row for \<open>u1\<close>, no whitelist.
\<close>

definition scenario_response :: sync_response where
  "scenario_response =
     \<lparr>strategy = ''full_replace'', newRevision = ''r1'',
      sync_payload = DataObject
        \<lparr>d_blacklist = Some [\<lparr>row_user_id = ''u1'', row_reason = Some ''spam'', row_operator_id = None,
                               row_source_id = None, row_disabled = Some False, row_updated_at = None\<rparr>],
         d_whitelist = None, d_upserts = None, d_deletes = None,
         d_whitelist_upserts = None, d_whitelist_deletes = None\<rparr>\<rparr>"

text \<open>
  A world that has been in use: one blocked and one exempt identity, an instance id, and
  an empty revision marker.
\<close>

definition stale_world :: world where
  "stale_world =
     \<lparr>blacklist_users = [''old'' \<mapsto> \<lparr>bl_user_id = ''old'', bl_reason = ''abuse'', bl_operator_id = None,
                                    bl_source_id = None, bl_disabled = False, bl_updated_at = Some 5\<rparr>],
      blacklist_whitelist = [''friend'' \<mapsto> \<lparr>wl_user_id = ''friend'', wl_reason = None,
                                           wl_operator_id = None, wl_created_at = None\<rparr>],
      blacklist_request_queue = [],
      blacklist_meta = [''instance_uuid'' \<mapsto> ''inst-1'', ''sync_revision'' \<mapsto> []],
      blacklist_guild_settings = Map.empty,
      isProcessingQueue = False, history = [], lock_trace = []\<rparr>"

text \<open>
  Frame conditions used in the proofs: a computation never changes the meta table; a
  computation that throws has not changed it.
\<close>

definition keeps_meta :: "'a io \<Rightarrow> bool" where
  "keeps_meta m = (\<forall>w. blacklist_meta (snd (m w)) = blacklist_meta w)"

definition meta_on_throw :: "'a io \<Rightarrow> bool" where
  "meta_on_throw m = (\<forall>w. isl (fst (m w)) \<longrightarrow> blacklist_meta (snd (m w)) = blacklist_meta w)"

text \<open>
  What an incremental payload does to the block table and to the exempt table when no
  store call fails: upserts first, then deletes; a bare array or a missing \<open>data\<close>
  changes neither.
\<close>

definition incremental_users :: "sync_data \<Rightarrow> (string \<rightharpoonup> BlacklistEntry) \<Rightarrow> (string \<rightharpoonup> BlacklistEntry)" where
  "incremental_users d t =
     (case d of
        DataObject obj \<Rightarrow>
          remove_keys (array_or_empty (d_deletes obj)) (fold upsert_user (array_or_empty (d_upserts obj)) t)
      | _ \<Rightarrow> t)"

definition incremental_whitelist :: "sync_data \<Rightarrow> (string \<rightharpoonup> WhitelistEntry) \<Rightarrow> (string \<rightharpoonup> WhitelistEntry)" where
  "incremental_whitelist d t =
     (case d of
        DataObject obj \<Rightarrow>
          remove_keys (array_or_empty (d_whitelist_deletes obj))
            (fold upsert_white (array_or_empty (d_whitelist_upserts obj)) t)
      | _ \<Rightarrow> t)"

text \<open>An incremental answer that touches both tables.\<close>

definition incremental_response :: sync_response where
  "incremental_response =
     \<lparr>strategy = ''incremental'', newRevision = ''r2'',
      sync_payload = DataObject
        \<lparr>d_blacklist = None, d_whitelist = None,
         d_upserts = Some [\<lparr>row_user_id = ''u2'', row_reason = Some ''fraud'', row_operator_id = Some ''op'',
                             row_source_id = None, row_disabled = None, row_updated_at = Some 7\<rparr>,
                           \<lparr>row_user_id = ''old'', row_reason = None, row_operator_id = None,
                             row_source_id = None, row_disabled = Some True, row_updated_at = None\<rparr>],
         d_deletes = Some [''gone''],
         d_whitelist_upserts = Some [\<lparr>wrow_user_id = ''vip'', wrow_reason = Some ''staff'',
                                       wrow_operator_id = None, wrow_created_at = None\<rparr>],
         d_whitelist_deletes = Some [''friend'']\<rparr>\<rparr>"

text \<open>
  A queue of one request that has used up none of its retries, and a world that holds it
  while a drain is running.
\<close>

definition pending_request :: OfflineRequest where
  "pending_request =
     \<lparr>req_id = JStr ''q1'', req_type = ADD,
      req_payload = [(''request_id'', JStr ''req-1''), (''type'', JStr ''ADD'')],
      createdAt = 100, retryCount = 0\<rparr>"

definition draining_world :: world where
  "draining_world = empty_world\<lparr>blacklist_request_queue := [pending_request], isProcessingQueue := True\<rparr>"

text \<open>
  The delivery attempts in a history, and the rows of the queue that carry a given id.
\<close>

definition delivery_attempts :: "event list \<Rightarrow> event list" where
  "delivery_attempts h = filter (\<lambda>ev. case ev of HttpPost url body \<Rightarrow> True | _ \<Rightarrow> False) h"

definition requests_with_id :: "json \<Rightarrow> OfflineRequest list \<Rightarrow> OfflineRequest list" where
  "requests_with_id k q = filter (\<lambda>r. req_id r = k) q"

text \<open>
  The remote authority rejects this body with \<open>err\<close> whenever it is posted.
\<close>

definition delivery_fails :: "env \<Rightarrow> PluginConfig \<Rightarrow> payload \<Rightarrow> http_error \<Rightarrow> bool" where
  "delivery_fails e config body err =
     (\<forall>h. http_post_applications e h (applications_url config) body = Some err)"

text \<open>
  A rejection by the remote authority, a second queued request on its last regular
  retry, a world that queues both, and an environment in which the remote authority
  cannot be reached for \<open>req-1\<close> and rejects everything else.
\<close>

definition rejection_error :: http_error where
  "rejection_error = \<lparr>err_code = Some ''ERR_BAD_REQUEST'', err_response = True, err_message = ''400''\<rparr>"

definition second_request :: OfflineRequest where
  "second_request =
     \<lparr>req_id = JStr ''q2'', req_type = REMOVE,
      req_payload = [(''request_id'', JStr ''req-2''), (''type'', JStr ''REMOVE'')],
      createdAt = 200, retryCount = 5\<rparr>"

definition queued_world :: world where
  "queued_world = empty_world\<lparr>blacklist_request_queue := [second_request, pending_request]\<rparr>"

definition picky_env :: env where
  "picky_env =
     quiet_env\<lparr>http_post_applications :=
       \<lambda>h url body. if map_of body ''request_id'' = Some (JStr ''req-1'')
                     then Some timeout_error else Some rejection_error\<rparr>"

text \<open>
  A backlog of eleven requests, created one after the other, each past its retry budget.
\<close>

definition dead_letter :: "int \<Rightarrow> OfflineRequest" where
  "dead_letter n =
     \<lparr>req_id = JNum n, req_type = ADD, req_payload = [(''request_id'', JNum n)],
      createdAt = n, retryCount = 6\<rparr>"

definition backlog_world :: world where
  "backlog_world =
     empty_world\<lparr>blacklist_request_queue := map dead_letter [1, 2, 3, 4, 5, 6, 7, 8, 9, 10, 11]\<rparr>"

text \<open>A queue with one request past its retry budget and one on its last regular retry.\<close>

definition mixed_world :: world where
  "mixed_world = empty_world\<lparr>blacklist_request_queue := [second_request, dead_letter 1]\<rparr>"

text \<open>
  What \<open>isUserAdmin\<close> and the display-name lookup make of the bot adapter's reply to a
  member lookup; every removal of this member fails.
\<close>

definition admin_reply :: "env \<Rightarrow> PluginConfig \<Rightarrow> member_reply \<Rightarrow> bool" where
  "admin_reply e config reply = (case reply of MemberOk m \<Rightarrow> has_admin_role e config m | _ \<Rightarrow> False)"

definition reply_displayName :: "member_reply \<Rightarrow> string \<Rightarrow> string" where
  "reply_displayName reply user_id = (case reply of MemberOk m \<Rightarrow> displayName_of m user_id | _ \<Rightarrow> user_id)"

definition removal_always_fails :: "env \<Rightarrow> string \<Rightarrow> string \<Rightarrow> bool" where
  "removal_always_fails e g u = (\<forall>h. kickGuildMember e h g u \<noteq> None)"

text \<open>The mode in force for a group: its setting, or the configured default.\<close>

definition effective_mode :: "PluginConfig \<Rightarrow> world \<Rightarrow> string \<Rightarrow> guild_mode" where
  "effective_mode config w g =
     (case blacklist_guild_settings w g of Some m \<Rightarrow> m | None \<Rightarrow> defaultGuildMode config)"

text \<open>
  Removal attempts in a list of events. A computation's removals are justified when it
  only appends events, makes at most \<open>n\<close> removal attempts, and returns true only after
  a successful removal of \<open>u\<close> from \<open>g\<close>; it is quiet when it appends events none of
  which is a removal attempt.
\<close>

definition removal_attempts :: "event list \<Rightarrow> event list" where
  "removal_attempts evs = filter (\<lambda>ev. case ev of KickGuildMember g u success \<Rightarrow> True | _ \<Rightarrow> False) evs"

definition removal_justified :: "string \<Rightarrow> string \<Rightarrow> nat \<Rightarrow> bool io \<Rightarrow> bool" where
  "removal_justified g u n m =
     (\<forall>w. \<exists>evs. history (snd (m w)) = history w @ evs \<and>
                 length (removal_attempts evs) \<le> n \<and>
                 (fst (m w) = Inr True \<longrightarrow> KickGuildMember g u True \<in> set evs))"

definition quiet :: "'a io \<Rightarrow> bool" where
  "quiet m = (\<forall>w. \<exists>evs. history (snd (m w)) = history w @ evs \<and> removal_attempts evs = [])"

text \<open>
  A group in mode \<open>both\<close> with a blocked member who is also exempt; the same group in
  mode \<open>kick\<close> without the exemption; a session in that group; an adapter that knows the
  member as an ordinary one and cannot remove anybody.
\<close>

definition blocked_entry :: BlacklistEntry where
  "blocked_entry =
     \<lparr>bl_user_id = ''666'', bl_reason = ''spam'', bl_operator_id = None, bl_source_id = None,
      bl_disabled = False, bl_updated_at = None\<rparr>"

definition exempt_world :: world where
  "exempt_world =
     empty_world\<lparr>blacklist_users := [''666'' \<mapsto> blocked_entry],
                 blacklist_whitelist := [''666'' \<mapsto> \<lparr>wl_user_id = ''666'', wl_reason = None,
                                                     wl_operator_id = None, wl_created_at = None\<rparr>],
                 blacklist_guild_settings := [''g1'' \<mapsto> Both]\<rparr>"

definition kick_world :: world where
  "kick_world =
     empty_world\<lparr>blacklist_users := [''666'' \<mapsto> blocked_entry],
                 blacklist_guild_settings := [''g1'' \<mapsto> Kick]\<rparr>"

definition group_session :: Session where
  "group_session = \<lparr>guildId = Some ''g1'', messageId = None\<rparr>"

definition ordinary_member :: member where
  "ordinary_member = \<lparr>nick = Some ''Mallory'', user_name = Some ''mallory'', roles = Some [''member'']\<rparr>"

definition stubborn_env :: env where
  "stubborn_env =
     quiet_env\<lparr>getGuildMember := \<lambda>h g u. MemberOk ordinary_member,
               kickGuildMember := \<lambda>h g u. Some ''no permission''\<rparr>"

text \<open>
  Whether an interaction of a synchronisation, issued after the history \<open>h\<close>, fails: a
  store call fails when the store has a fault at that moment, the pull when the POST
  rejects. \<open>calls_ok e h evs\<close>: of the interactions \<open>evs\<close>, issued one after the other
  from \<open>h\<close> on, none fails.
\<close>

definition call_fails :: "env \<Rightarrow> event list \<Rightarrow> event \<Rightarrow> bool" where
  "call_fails e h ev =
     (case ev of
        Db op tbl \<Rightarrow> db_fault e h
      | HttpPost url body \<Rightarrow> (case http_post_sync e h url body of SyncFail err \<Rightarrow> True | SyncOk r \<Rightarrow> False)
      | _ \<Rightarrow> False)"

fun calls_ok :: "env \<Rightarrow> event list \<Rightarrow> event list \<Rightarrow> bool" where
  "calls_ok e h [] = True"
| "calls_ok e h (ev # evs) = (\<not> call_fails e h ev \<and> calls_ok e (h @ [ev]) evs)"

text \<open>
  A computation stops at the first interaction that fails: either none of its
  interactions failed, or it throws and the failed interaction is its last one.
\<close>

definition stops_at_failure :: "env \<Rightarrow> 'a io \<Rightarrow> bool" where
  "stops_at_failure e m =
     (\<forall>w. \<exists>evs. history (snd (m w)) = history w @ evs \<and>
                 (calls_ok e (history w) evs \<or>
                  isl (fst (m w)) \<and> evs \<noteq> [] \<and> calls_ok e (history w) (butlast evs) \<and>
                  call_fails e (history w @ butlast evs) (last evs)))"

text \<open>
  An environment whose store fails at the sixth interaction and whose remote authority
  answers the full-replace scenario.
\<close>

definition faulty_env :: env where
  "faulty_env =
     quiet_env\<lparr>db_fault := \<lambda>h. length h = 5,
               http_post_sync := \<lambda>h url body. SyncOk (Some scenario_response)\<rparr>"

text \<open>
  A full-replace answer that delivers both sets: two block rows, one of them with an
  operator and marked disabled, and one exempt row.
\<close>

definition full_response :: sync_response where
  "full_response =
     \<lparr>strategy = ''full_replace'', newRevision = ''r5'',
      sync_payload = DataObject
        \<lparr>d_blacklist = Some [\<lparr>row_user_id = ''u1'', row_reason = Some ''spam'', row_operator_id = None,
                               row_source_id = None, row_disabled = Some False, row_updated_at = None\<rparr>,
                             \<lparr>row_user_id = ''u2'', row_reason = None, row_operator_id = Some ''op'',
                               row_source_id = None, row_disabled = Some True, row_updated_at = Some 9\<rparr>],
         d_whitelist = Some [\<lparr>wrow_user_id = ''vip'', wrow_reason = Some ''staff'',
                               wrow_operator_id = None, wrow_created_at = Some 3\<rparr>],
         d_upserts = None, d_deletes = None,
         d_whitelist_upserts = None, d_whitelist_deletes = None\<rparr>\<rparr>"

text \<open>
  A computation runs under the lock: started with \<open>isProcessingQueue\<close> set, it leaves it
  set, and every interaction it issues is issued with the lock set.
\<close>

definition under_lock :: "'a io \<Rightarrow> bool" where
  "under_lock m =
     (\<forall>w. isProcessingQueue w \<longrightarrow>
          isProcessingQueue (snd (m w)) \<and>
          (\<exists>evs. history (snd (m w)) = history w @ evs \<and>
                 lock_trace (snd (m w)) = lock_trace w @ replicate (length evs) True))"

text \<open>
  The world that holds one pending request while no drain is running, and an environment
  in which the remote authority takes every application.
\<close>

definition waiting_world :: world where
  "waiting_world = empty_world\<lparr>blacklist_request_queue := [pending_request]\<rparr>"

definition accepting_env :: env where
  "accepting_env = quiet_env\<lparr>http_post_applications := \<lambda>h url body. None\<rparr>"

text \<open>
  The three store reads that \<open>checkAndHandleUser\<close> issues before it looks up the member;
  the text of the exception that a removal issued after \<open>h\<close> throws.
\<close>

definition three_reads :: "event list" where
  "three_reads =
     [Db DbGet ''blacklist_guild_settings'', Db DbGet ''blacklist_whitelist'', Db DbGet ''blacklist_users'']"

definition removal_error :: "env \<Rightarrow> event list \<Rightarrow> string \<Rightarrow> string \<Rightarrow> string" where
  "removal_error e h g u = (case kickGuildMember e h g u of Some msg \<Rightarrow> msg | None \<Rightarrow> [])"

text \<open>
  An adapter that knows the member as an ordinary one and removes a member at the second
  attempt. A member whose only role is \<open>admin\<close> written with a small a-umlaut for its
  first letter (UTF-8 0xC3 0xA4), and a configuration whose admin role is that word in
  capitals (the capital a-umlaut is 0xC3 0x84).
\<close>

definition yielding_env :: env where
  "yielding_env =
     quiet_env\<lparr>getGuildMember := \<lambda>h g u. MemberOk ordinary_member,
               kickGuildMember := \<lambda>h g u. if KickGuildMember g u False \<in> set h then None else Some ''busy''\<rparr>"

definition umlaut_member :: member where
  "umlaut_member =
     \<lparr>nick = None, user_name = None, roles = Some [[CHR 0xC3, CHR 0xA4] @ ''dmin'']\<rparr>"

definition umlaut_config :: PluginConfig where
  "umlaut_config = example_config\<lparr>adminRoles := Some [[CHR 0xC3, CHR 0x84] @ ''DMIN'']\<rparr>"

section \<open>Basic facts about the combinators and the store\<close>

lemma bnd_ret [simp]: "bnd (ret x) f = f x"
  by (rule ext) (simp add: bnd_def ret_def)

lemma bnd_throw [simp]: "bnd (throw err) f = throw err"
  by (rule ext) (simp add: bnd_def throw_def)

lemma db_call_ok:
  "store_ok e \<Longrightarrow>
   db_call e op tbl f w = (case f (record_event (Db op tbl) w) of (x, w') \<Rightarrow> (Inr x, w'))"
  by (simp add: db_call_def store_ok_def)

section \<open>Synchronisation\<close>

text \<open>
  C10. When the store does not fail and the remote authority answers with a strategy
  that is none of \<open>up-to-date\<close>, \<open>full_replace\<close> and \<open>incremental\<close>, \<open>syncBlacklist\<close>
  leaves the block and exempt tables as they were, stores the answer's \<open>newRevision\<close>
  under \<open>sync_revision\<close> and returns false.
\<close>

theorem sync_unknown_strategy:
  assumes "store_ok e"
      and "sync_answers e r"
      and "strategy r \<noteq> ''up-to-date''"
      and "strategy r \<noteq> ''full_replace''"
      and "strategy r \<noteq> ''incremental''"
  shows "fst (syncBlacklist e config w) = Inr False \<and>
         blacklist_users (snd (syncBlacklist e config w)) = blacklist_users w \<and>
         blacklist_whitelist (snd (syncBlacklist e config w)) = blacklist_whitelist w \<and>
         blacklist_meta (snd (syncBlacklist e config w)) ''sync_revision'' = Some (newRevision r)"
  using assms
  by (simp add: syncBlacklist_def sync_attempt_def try_catch_def bnd_def ret_def db_get_meta_def
      db_upsert_meta_def db_call_ok post_sync_def record_event_def sync_answers_def)

theorem sync_unknown_strategy_witness:
  "fst (syncBlacklist
          (quiet_env\<lparr>http_post_sync := \<lambda>h url body.
             SyncOk (Some \<lparr>strategy = ''snapshot'', newRevision = ''r9'', sync_payload = DataMissing\<rparr>)\<rparr>)
          example_config empty_world) = Inr False \<and>
   blacklist_meta (snd (syncBlacklist
          (quiet_env\<lparr>http_post_sync := \<lambda>h url body.
             SyncOk (Some \<lparr>strategy = ''snapshot'', newRevision = ''r9'', sync_payload = DataMissing\<rparr>)\<rparr>)
          example_config empty_world)) ''sync_revision'' = Some ''r9''"
proof -
  let ?r = "\<lparr>strategy = ''snapshot'', newRevision = ''r9'', sync_payload = DataMissing\<rparr>"
  let ?e = "quiet_env\<lparr>http_post_sync := \<lambda>h url body. SyncOk (Some ?r)\<rparr>"
  have ok: "store_ok ?e"
    by (simp add: store_ok_def quiet_env_def)
  have ans: "sync_answers ?e ?r"
    by (simp add: sync_answers_def)
  have s1: "strategy ?r \<noteq> ''up-to-date''" and s2: "strategy ?r \<noteq> ''full_replace''"
    and s3: "strategy ?r \<noteq> ''incremental''"
    by simp_all
  show ?thesis
    using sync_unknown_strategy [OF ok ans s1 s2 s3, of example_config empty_world] by simp
qed

lemma db_upsert_users_ok:
  "store_ok e \<Longrightarrow> db_upsert_users e rows w =
     (Inr (), (record_event (Db DbUpsert ''blacklist_users'') w)
                \<lparr>blacklist_users := fold upsert_user rows (blacklist_users w)\<rparr>)"
  by (simp add: db_upsert_users_def db_call_ok record_event_def)

lemma db_upsert_whitelist_ok:
  "store_ok e \<Longrightarrow> db_upsert_whitelist e rows w =
     (Inr (), (record_event (Db DbUpsert ''blacklist_whitelist'') w)
                \<lparr>blacklist_whitelist := fold upsert_white rows (blacklist_whitelist w)\<rparr>)"
  by (simp add: db_upsert_whitelist_def db_call_ok record_event_def)

lemma fold_take_drop: "fold f (drop n xs) (fold f (take n xs) a) = fold f xs a"
proof -
  have "fold f (take n xs @ drop n xs) a = fold f (drop n xs) (fold f (take n xs) a)"
    by (simp only: fold_append comp_apply)
  then show ?thesis by simp
qed

declare upsert_users_batched.simps [simp del] upsert_whitelist_batched.simps [simp del]

lemma upsert_users_batched_ok:
  assumes "store_ok e"
  shows "fst (upsert_users_batched e rows i w) = Inr () \<and>
         blacklist_users (snd (upsert_users_batched e rows i w)) =
           fold upsert_user (drop i rows) (blacklist_users w) \<and>
         blacklist_whitelist (snd (upsert_users_batched e rows i w)) = blacklist_whitelist w \<and>
         blacklist_meta (snd (upsert_users_batched e rows i w)) = blacklist_meta w"
  using assms
proof (induction e rows i w rule: upsert_users_batched.induct)
  case (1 e rows i w)
  show ?case
  proof (cases "i < length rows")
    case True
    let ?w1 = "(record_event (Db DbUpsert ''blacklist_users'') w)
                \<lparr>blacklist_users := fold upsert_user (take 100 (drop i rows)) (blacklist_users w)\<rparr>"
    have step: "db_upsert_users e (take 100 (drop i rows)) w = (Inr (), ?w1)"
      using "1.prems" by (rule db_upsert_users_ok)
    have unfold: "upsert_users_batched e rows i w = upsert_users_batched e rows (i + 100) ?w1"
      using True step by (simp add: upsert_users_batched.simps [of e rows i w])
    have ih: "fst (upsert_users_batched e rows (i + 100) ?w1) = Inr () \<and>
         blacklist_users (snd (upsert_users_batched e rows (i + 100) ?w1)) =
           fold upsert_user (drop (i + 100) rows) (blacklist_users ?w1) \<and>
         blacklist_whitelist (snd (upsert_users_batched e rows (i + 100) ?w1)) = blacklist_whitelist ?w1 \<and>
         blacklist_meta (snd (upsert_users_batched e rows (i + 100) ?w1)) = blacklist_meta ?w1"
      using "1.IH" [OF True step [symmetric] refl "1.prems"] .
    have d: "fold upsert_user (drop (100 + i) rows)
               (fold upsert_user (take 100 (drop i rows)) (blacklist_users w)) =
             fold upsert_user (drop i rows) (blacklist_users w)"
      using fold_take_drop [of upsert_user 100 "drop i rows" "blacklist_users w"] by simp
    have d': "fold upsert_user (drop (i + 100) rows)
               (fold upsert_user (take 100 (drop i rows)) (blacklist_users w)) =
             fold upsert_user (drop i rows) (blacklist_users w)"
      using d by (simp add: add.commute)
    show ?thesis
      using ih by (simp add: unfold d d' record_event_def)
  next
    case False
    then show ?thesis
      by (simp add: upsert_users_batched.simps [of e rows i w])
  qed
qed

lemma keeps_meta_ret: "keeps_meta (ret x)"
  by (simp add: keeps_meta_def ret_def)

lemma keeps_meta_throw: "keeps_meta (throw err)"
  by (simp add: keeps_meta_def throw_def)

lemma keeps_meta_bnd:
  assumes "keeps_meta m" and "\<And>x. keeps_meta (f x)"
  shows "keeps_meta (bnd m f)"
  unfolding keeps_meta_def
proof
  fix w
  show "blacklist_meta (snd (bnd m f w)) = blacklist_meta w"
  proof (cases "m w")
    case (Pair r w')
    have m: "blacklist_meta w' = blacklist_meta w"
      using assms(1) Pair by (auto simp: keeps_meta_def dest: spec [of _ w])
    show ?thesis
    proof (cases r)
      case (Inl err)
      then show ?thesis using Pair m by (simp add: bnd_def)
    next
      case (Inr x)
      have "blacklist_meta (snd (f x w')) = blacklist_meta w'"
        using assms(2) [of x] by (simp add: keeps_meta_def)
      then show ?thesis using Pair Inr m by (simp add: bnd_def)
    qed
  qed
qed

lemma keeps_meta_db_call:
  assumes "\<And>w. blacklist_meta (snd (f w)) = blacklist_meta w"
  shows "keeps_meta (db_call e op tbl f)"
  unfolding keeps_meta_def
proof
  fix w
  have "blacklist_meta (snd (f (record_event (Db op tbl) w))) = blacklist_meta w"
    using assms [of "record_event (Db op tbl) w"] by (simp add: record_event_def)
  then show "blacklist_meta (snd (db_call e op tbl f w)) = blacklist_meta w"
    by (auto simp: db_call_def record_event_def split: prod.splits)
qed

lemma keeps_meta_db_get_meta: "keeps_meta (db_get_meta e k)"
  unfolding db_get_meta_def by (rule keeps_meta_db_call) simp

lemma keeps_meta_db_upsert_users: "keeps_meta (db_upsert_users e rows)"
  unfolding db_upsert_users_def by (rule keeps_meta_db_call) simp

lemma keeps_meta_db_upsert_whitelist: "keeps_meta (db_upsert_whitelist e rows)"
  unfolding db_upsert_whitelist_def by (rule keeps_meta_db_call) simp

lemma keeps_meta_db_remove_all_users: "keeps_meta (db_remove_all_users e)"
  unfolding db_remove_all_users_def by (rule keeps_meta_db_call) simp

lemma keeps_meta_db_remove_all_whitelist: "keeps_meta (db_remove_all_whitelist e)"
  unfolding db_remove_all_whitelist_def by (rule keeps_meta_db_call) simp

lemma keeps_meta_db_remove_users: "keeps_meta (db_remove_users e ks)"
  unfolding db_remove_users_def by (rule keeps_meta_db_call) simp

lemma keeps_meta_db_remove_whitelist: "keeps_meta (db_remove_whitelist e ks)"
  unfolding db_remove_whitelist_def by (rule keeps_meta_db_call) simp

lemma keeps_meta_post_sync: "keeps_meta (post_sync e config revision instanceId)"
  by (simp add: keeps_meta_def post_sync_def record_event_def Let_def split: sync_reply.splits)

lemma upsert_users_batched_meta:
  "blacklist_meta (snd (upsert_users_batched e rows i w)) = blacklist_meta w"
proof (induction e rows i w rule: upsert_users_batched.induct)
  case (1 e rows i w)
  show ?case
  proof (cases "i < length rows")
    case True
    obtain r w1 where step: "db_upsert_users e (take 100 (drop i rows)) w = (r, w1)"
      by (cases "db_upsert_users e (take 100 (drop i rows)) w")
    have m1: "blacklist_meta w1 = blacklist_meta w"
      using keeps_meta_db_upsert_users [of e "take 100 (drop i rows)"] step
      by (auto simp: keeps_meta_def dest: spec [of _ w])
    show ?thesis
    proof (cases r)
      case (Inl err)
      then show ?thesis
        using True step m1 by (simp add: upsert_users_batched.simps [of e rows i w])
    next
      case (Inr u)
      have "blacklist_meta (snd (upsert_users_batched e rows (i + 100) w1)) = blacklist_meta w1"
        using "1.IH" True step Inr by simp
      then show ?thesis
        using True step Inr m1 by (simp add: upsert_users_batched.simps [of e rows i w])
    qed
  next
    case False
    then show ?thesis
      by (simp add: upsert_users_batched.simps [of e rows i w])
  qed
qed

lemma upsert_whitelist_batched_meta:
  "blacklist_meta (snd (upsert_whitelist_batched e rows i w)) = blacklist_meta w"
proof (induction e rows i w rule: upsert_whitelist_batched.induct)
  case (1 e rows i w)
  show ?case
  proof (cases "i < length rows")
    case True
    obtain r w1 where step: "db_upsert_whitelist e (take 100 (drop i rows)) w = (r, w1)"
      by (cases "db_upsert_whitelist e (take 100 (drop i rows)) w")
    have m1: "blacklist_meta w1 = blacklist_meta w"
      using keeps_meta_db_upsert_whitelist [of e "take 100 (drop i rows)"] step
      by (auto simp: keeps_meta_def dest: spec [of _ w])
    show ?thesis
    proof (cases r)
      case (Inl err)
      then show ?thesis
        using True step m1 by (simp add: upsert_whitelist_batched.simps [of e rows i w])
    next
      case (Inr u)
      have "blacklist_meta (snd (upsert_whitelist_batched e rows (i + 100) w1)) = blacklist_meta w1"
        using "1.IH" True step Inr by simp
      then show ?thesis
        using True step Inr m1 by (simp add: upsert_whitelist_batched.simps [of e rows i w])
    qed
  next
    case False
    then show ?thesis
      by (simp add: upsert_whitelist_batched.simps [of e rows i w])
  qed
qed

lemma keeps_meta_upsert_users_batched: "keeps_meta (upsert_users_batched e rows i)"
  by (simp add: keeps_meta_def upsert_users_batched_meta)

lemma keeps_meta_upsert_whitelist_batched: "keeps_meta (upsert_whitelist_batched e rows i)"
  by (simp add: keeps_meta_def upsert_whitelist_batched_meta)

lemma keeps_meta_if:
  "keeps_meta m \<Longrightarrow> keeps_meta n \<Longrightarrow> keeps_meta (if c then m else n)"
  by simp

lemma keeps_meta_full_replace: "keeps_meta (full_replace e d)"
  unfolding full_replace_def
  by (intro keeps_meta_bnd keeps_meta_if keeps_meta_ret keeps_meta_throw
      keeps_meta_db_remove_all_users keeps_meta_db_remove_all_whitelist
      keeps_meta_upsert_users_batched keeps_meta_upsert_whitelist_batched)

lemma keeps_meta_when_nonempty:
  "(\<And>ys. keeps_meta (f ys)) \<Longrightarrow> keeps_meta (when_nonempty xs f)"
  by (simp add: when_nonempty_def keeps_meta_ret split: option.splits list.splits)

lemma keeps_meta_incremental: "keeps_meta (incremental e d)"
proof (cases d)
  case DataMissing
  then show ?thesis by (simp add: incremental_def keeps_meta_throw)
next
  case (DataArray rows)
  then show ?thesis by (simp add: incremental_def keeps_meta_ret)
next
  case (DataObject obj)
  show ?thesis
    unfolding incremental_def DataObject sync_data.case
    by (intro keeps_meta_bnd keeps_meta_when_nonempty keeps_meta_ret
        keeps_meta_db_upsert_users keeps_meta_db_remove_users
        keeps_meta_db_upsert_whitelist keeps_meta_db_remove_whitelist)
qed

lemma meta_on_throw_keeps: "keeps_meta m \<Longrightarrow> meta_on_throw m"
  by (simp add: keeps_meta_def meta_on_throw_def)

lemma meta_on_throw_bnd:
  assumes "keeps_meta m" and "\<And>x. meta_on_throw (f x)"
  shows "meta_on_throw (bnd m f)"
  unfolding meta_on_throw_def
proof (intro allI impI)
  fix w
  assume thrown: "isl (fst (bnd m f w))"
  show "blacklist_meta (snd (bnd m f w)) = blacklist_meta w"
  proof (cases "m w")
    case (Pair r w')
    have m: "blacklist_meta w' = blacklist_meta w"
      using assms(1) Pair by (auto simp: keeps_meta_def dest: spec [of _ w])
    show ?thesis
    proof (cases r)
      case (Inl err)
      then show ?thesis using Pair m by (simp add: bnd_def)
    next
      case (Inr x)
      have "isl (fst (f x w'))"
        using thrown Pair Inr by (simp add: bnd_def)
      then have "blacklist_meta (snd (f x w')) = blacklist_meta w'"
        using assms(2) [of x] by (simp add: meta_on_throw_def)
      then show ?thesis using Pair Inr m by (simp add: bnd_def)
    qed
  qed
qed

lemma meta_on_throw_store_revision:
  "meta_on_throw (bnd (db_upsert_meta e k v) (\<lambda>u. ret x))"
  by (simp add: meta_on_throw_def bnd_def db_upsert_meta_def db_call_def ret_def record_event_def)

lemma meta_on_throw_sync_attempt: "meta_on_throw (sync_attempt e config)"
  unfolding sync_attempt_def
proof (intro meta_on_throw_bnd keeps_meta_db_get_meta keeps_meta_post_sync)
  fix meta instanceId response
  show "meta_on_throw
          (case response of
             None \<Rightarrow> throw TypeError
           | Some r \<Rightarrow>
               if strategy r = ''up-to-date'' then ret False
               else bnd (if strategy r = ''full_replace'' then full_replace e (sync_payload r)
                         else if strategy r = ''incremental'' then incremental e (sync_payload r)
                         else ret False)
                      (\<lambda>hasNewEntries.
                       bnd (db_upsert_meta e ''sync_revision'' (newRevision r)) (\<lambda>_.
                       ret hasNewEntries)))"
  proof (cases response)
    case None
    then show ?thesis by (simp add: meta_on_throw_keeps keeps_meta_throw)
  next
    case (Some r)
    have branch: "keeps_meta (if strategy r = ''full_replace'' then full_replace e (sync_payload r)
                         else if strategy r = ''incremental'' then incremental e (sync_payload r)
                         else ret False)"
      by (intro keeps_meta_if keeps_meta_full_replace keeps_meta_incremental keeps_meta_ret)
    have rest: "meta_on_throw
            (bnd (if strategy r = ''full_replace'' then full_replace e (sync_payload r)
                  else if strategy r = ''incremental'' then incremental e (sync_payload r)
                  else ret False)
               (\<lambda>hasNewEntries.
                bnd (db_upsert_meta e ''sync_revision'' (newRevision r)) (\<lambda>_.
                ret hasNewEntries)))"
      using branch by (rule meta_on_throw_bnd) (rule meta_on_throw_store_revision)
    show ?thesis
    proof (cases "strategy r = ''up-to-date''")
      case True
      then show ?thesis
        unfolding Some option.case by (simp add: meta_on_throw_keeps keeps_meta_ret)
    next
      case False
      then show ?thesis
        unfolding Some option.case using rest by simp
    qed
  qed
qed

lemma calls_ok_append:
  "calls_ok e h (xs @ ys) = (calls_ok e h xs \<and> calls_ok e (h @ xs) ys)"
  by (induction xs arbitrary: h) simp_all

lemma stops_at_failureI:
  assumes "\<And>w. \<exists>evs. history (snd (m w)) = history w @ evs \<and>
                 (calls_ok e (history w) evs \<or>
                  isl (fst (m w)) \<and> evs \<noteq> [] \<and> calls_ok e (history w) (butlast evs) \<and>
                  call_fails e (history w @ butlast evs) (last evs))"
  shows "stops_at_failure e m"
  using assms by (simp add: stops_at_failure_def)

lemma stops_at_failureD:
  assumes "stops_at_failure e m" and "m w = (r, w')"
  obtains evs where "history w' = history w @ evs"
    and "calls_ok e (history w) evs \<or>
         isl r \<and> evs \<noteq> [] \<and> calls_ok e (history w) (butlast evs) \<and>
         call_fails e (history w @ butlast evs) (last evs)"
proof -
  have "\<exists>evs. history (snd (m w)) = history w @ evs \<and>
                 (calls_ok e (history w) evs \<or>
                  isl (fst (m w)) \<and> evs \<noteq> [] \<and> calls_ok e (history w) (butlast evs) \<and>
                  call_fails e (history w @ butlast evs) (last evs))"
    using assms(1) unfolding stops_at_failure_def by (rule spec)
  then show ?thesis
    using assms(2) that by auto
qed

lemma stops_ret: "stops_at_failure e (ret x)"
  by (rule stops_at_failureI) (simp add: ret_def)

lemma stops_throw: "stops_at_failure e (throw err)"
  by (rule stops_at_failureI) (simp add: throw_def)

lemma stops_if: "stops_at_failure e m \<Longrightarrow> stops_at_failure e n \<Longrightarrow> stops_at_failure e (if c then m else n)"
  by simp

lemma stops_bnd:
  assumes "stops_at_failure e m" and "\<And>x. stops_at_failure e (f x)"
  shows "stops_at_failure e (bnd m f)"
proof (rule stops_at_failureI)
  fix w
  obtain r w' where mw: "m w = (r, w')"
    by (cases "m w")
  obtain evs where h1: "history w' = history w @ evs"
    and c1: "calls_ok e (history w) evs \<or>
         isl r \<and> evs \<noteq> [] \<and> calls_ok e (history w) (butlast evs) \<and>
         call_fails e (history w @ butlast evs) (last evs)"
    using assms(1) mw by (rule stops_at_failureD)
  show "\<exists>evs. history (snd (bnd m f w)) = history w @ evs \<and>
                 (calls_ok e (history w) evs \<or>
                  isl (fst (bnd m f w)) \<and> evs \<noteq> [] \<and> calls_ok e (history w) (butlast evs) \<and>
                  call_fails e (history w @ butlast evs) (last evs))"
  proof (cases r)
    case (Inl err)
    then show ?thesis
      using mw h1 c1 by (intro exI [of _ evs]) (simp add: bnd_def)
  next
    case (Inr x)
    then have ok1: "calls_ok e (history w) evs"
      using c1 by simp
    obtain r2 w2 where fw: "f x w' = (r2, w2)"
      by (cases "f x w'")
    obtain evs2 where h2: "history w2 = history w' @ evs2"
      and c2: "calls_ok e (history w') evs2 \<or>
         isl r2 \<and> evs2 \<noteq> [] \<and> calls_ok e (history w') (butlast evs2) \<and>
         call_fails e (history w' @ butlast evs2) (last evs2)"
      using assms(2) [of x] fw by (rule stops_at_failureD)
    have res: "bnd m f w = (r2, w2)"
      using mw Inr fw by (simp add: bnd_def)
    show ?thesis
    proof (cases "calls_ok e (history w') evs2")
      case True
      then show ?thesis
        using res h1 h2 ok1 by (intro exI [of _ "evs @ evs2"]) (simp add: calls_ok_append)
    next
      case False
      then have f2: "isl r2" "evs2 \<noteq> []" "calls_ok e (history w') (butlast evs2)"
        "call_fails e (history w' @ butlast evs2) (last evs2)"
        using c2 by simp_all
      show ?thesis
        using res h1 h2 ok1 f2
        by (intro exI [of _ "evs @ evs2"]) (simp add: calls_ok_append butlast_append)
    qed
  qed
qed

lemma stops_db_call:
  assumes "\<And>w. history (snd (f w)) = history w"
  shows "stops_at_failure e (db_call e op tbl f)"
proof (rule stops_at_failureI)
  fix w
  have h: "history (snd (f (record_event (Db op tbl) w))) = history w @ [Db op tbl]"
    using assms [of "record_event (Db op tbl) w"] by (simp add: record_event_def)
  show "\<exists>evs. history (snd (db_call e op tbl f w)) = history w @ evs \<and>
                 (calls_ok e (history w) evs \<or>
                  isl (fst (db_call e op tbl f w)) \<and> evs \<noteq> [] \<and> calls_ok e (history w) (butlast evs) \<and>
                  call_fails e (history w @ butlast evs) (last evs))"
    using h
    by (intro exI [of _ "[Db op tbl]"])
      (auto simp: db_call_def call_fails_def record_event_def split: prod.splits)
qed

lemma stops_post_sync: "stops_at_failure e (post_sync e config revision instanceId)"
proof (rule stops_at_failureI)
  fix w
  let ?url = "remoteApiUrl config @ ''/sync''"
  let ?body = "(''revision'', JStr revision) #
                 (case instanceId of Some i \<Rightarrow> [(''instanceId'', JStr i)] | None \<Rightarrow> [])"
  show "\<exists>evs. history (snd (post_sync e config revision instanceId w)) = history w @ evs \<and>
                 (calls_ok e (history w) evs \<or>
                  isl (fst (post_sync e config revision instanceId w)) \<and> evs \<noteq> [] \<and>
                  calls_ok e (history w) (butlast evs) \<and>
                  call_fails e (history w @ butlast evs) (last evs))"
    by (intro exI [of _ "[HttpPost ?url ?body]"])
      (auto simp: post_sync_def Let_def call_fails_def record_event_def split: sync_reply.splits)
qed

lemma stops_db_get_meta: "stops_at_failure e (db_get_meta e k)"
  unfolding db_get_meta_def by (rule stops_db_call) simp

lemma stops_db_upsert_meta: "stops_at_failure e (db_upsert_meta e k v)"
  unfolding db_upsert_meta_def by (rule stops_db_call) simp

lemma stops_db_upsert_users: "stops_at_failure e (db_upsert_users e rows)"
  unfolding db_upsert_users_def by (rule stops_db_call) simp

lemma stops_db_upsert_whitelist: "stops_at_failure e (db_upsert_whitelist e rows)"
  unfolding db_upsert_whitelist_def by (rule stops_db_call) simp

lemma stops_db_remove_all_users: "stops_at_failure e (db_remove_all_users e)"
  unfolding db_remove_all_users_def by (rule stops_db_call) simp

lemma stops_db_remove_all_whitelist: "stops_at_failure e (db_remove_all_whitelist e)"
  unfolding db_remove_all_whitelist_def by (rule stops_db_call) simp

lemma stops_db_remove_users: "stops_at_failure e (db_remove_users e ks)"
  unfolding db_remove_users_def by (rule stops_db_call) simp

lemma stops_db_remove_whitelist: "stops_at_failure e (db_remove_whitelist e ks)"
  unfolding db_remove_whitelist_def by (rule stops_db_call) simp

lemma upsert_users_batched_unfold:
  "upsert_users_batched e rows i =
     (if i < length rows
      then bnd (db_upsert_users e (take 100 (drop i rows))) (\<lambda>_. upsert_users_batched e rows (i + 100))
      else ret ())"
  by (rule ext) (simp add: upsert_users_batched.simps [of e rows i] bnd_def ret_def split: prod.splits sum.splits)

lemma upsert_whitelist_batched_unfold:
  "upsert_whitelist_batched e rows i =
     (if i < length rows
      then bnd (db_upsert_whitelist e (take 100 (drop i rows))) (\<lambda>_. upsert_whitelist_batched e rows (i + 100))
      else ret ())"
  by (rule ext) (simp add: upsert_whitelist_batched.simps [of e rows i] bnd_def ret_def split: prod.splits sum.splits)

lemma stops_upsert_users_batched: "stops_at_failure e (upsert_users_batched e rows i)"
proof (induction "length rows - i" arbitrary: i rule: less_induct)
  case less
  show ?case
  proof (cases "i < length rows")
    case True
    have "stops_at_failure e (upsert_users_batched e rows (i + 100))"
      using True by (intro less) simp
    then show ?thesis
      using True
      by (subst upsert_users_batched_unfold) (simp add: stops_bnd stops_db_upsert_users)
  next
    case False
    then show ?thesis
      by (subst upsert_users_batched_unfold) (simp add: stops_ret)
  qed
qed

lemma stops_upsert_whitelist_batched: "stops_at_failure e (upsert_whitelist_batched e rows i)"
proof (induction "length rows - i" arbitrary: i rule: less_induct)
  case less
  show ?case
  proof (cases "i < length rows")
    case True
    have "stops_at_failure e (upsert_whitelist_batched e rows (i + 100))"
      using True by (intro less) simp
    then show ?thesis
      using True
      by (subst upsert_whitelist_batched_unfold) (simp add: stops_bnd stops_db_upsert_whitelist)
  next
    case False
    then show ?thesis
      by (subst upsert_whitelist_batched_unfold) (simp add: stops_ret)
  qed
qed

lemma stops_full_replace: "stops_at_failure e (full_replace e d)"
  unfolding full_replace_def
  by (intro stops_bnd stops_if stops_ret stops_throw stops_db_remove_all_users
      stops_db_remove_all_whitelist stops_upsert_users_batched stops_upsert_whitelist_batched)

lemma stops_when_nonempty:
  "(\<And>ys. stops_at_failure e (f ys)) \<Longrightarrow> stops_at_failure e (when_nonempty xs f)"
  by (simp add: when_nonempty_def stops_ret split: option.splits list.splits)

lemma stops_incremental: "stops_at_failure e (incremental e d)"
proof (cases d)
  case DataMissing
  then show ?thesis by (simp add: incremental_def stops_throw)
next
  case (DataArray rows)
  then show ?thesis by (simp add: incremental_def stops_ret)
next
  case (DataObject obj)
  show ?thesis
    unfolding incremental_def DataObject sync_data.case
    by (intro stops_bnd stops_when_nonempty stops_ret stops_db_upsert_users stops_db_remove_users
        stops_db_upsert_whitelist stops_db_remove_whitelist)
qed

lemma stops_sync_attempt: "stops_at_failure e (sync_attempt e config)"
  unfolding sync_attempt_def
proof (intro stops_bnd stops_db_get_meta stops_post_sync)
  fix meta instanceId response
  show "stops_at_failure e
          (case response of
             None \<Rightarrow> throw TypeError
           | Some r \<Rightarrow>
               if strategy r = ''up-to-date'' then ret False
               else bnd (if strategy r = ''full_replace'' then full_replace e (sync_payload r)
                         else if strategy r = ''incremental'' then incremental e (sync_payload r)
                         else ret False)
                      (\<lambda>hasNewEntries.
                       bnd (db_upsert_meta e ''sync_revision'' (newRevision r)) (\<lambda>_.
                       ret hasNewEntries)))"
  proof (cases response)
    case None
    then show ?thesis by (simp add: stops_throw)
  next
    case (Some r)
    show ?thesis
      unfolding Some option.case
      by (intro stops_if stops_bnd stops_ret stops_full_replace stops_incremental stops_db_upsert_meta)
  qed
qed

text \<open>
  C2. \<open>syncBlacklist\<close> never raises: it always returns a boolean. Its interactions are
  issued one after the other; if one of them fails (the store has a fault when a store
  call is issued, or the POST to the remote authority rejects), then that interaction is
  the last one of the call, the result is false, and the meta table, and with it
  \<open>sync_revision\<close>, is as it was before the call. The same holds for whatever else
  throws inside the \<open>try\<close> (reading a missing response): the handler does nothing but
  return false.
\<close>

theorem sync_never_raises:
  "(\<exists>b. fst (syncBlacklist e config w) = Inr b) \<and>
   (\<exists>evs. history (snd (syncBlacklist e config w)) = history w @ evs \<and>
      (\<not> calls_ok e (history w) evs \<longrightarrow>
         fst (syncBlacklist e config w) = Inr False \<and>
         blacklist_meta (snd (syncBlacklist e config w)) = blacklist_meta w \<and>
         calls_ok e (history w) (butlast evs) \<and>
         call_fails e (history w @ butlast evs) (last evs))) \<and>
   (isl (fst (sync_attempt e config w)) \<longrightarrow>
      fst (syncBlacklist e config w) = Inr False \<and>
      snd (syncBlacklist e config w) = snd (sync_attempt e config w) \<and>
      blacklist_meta (snd (syncBlacklist e config w)) = blacklist_meta w)"
proof -
  obtain r w' where run: "sync_attempt e config w = (r, w')"
    by (cases "sync_attempt e config w")
  obtain evs where h: "history w' = history w @ evs"
    and c: "calls_ok e (history w) evs \<or>
         isl r \<and> evs \<noteq> [] \<and> calls_ok e (history w) (butlast evs) \<and>
         call_fails e (history w @ butlast evs) (last evs)"
    using stops_sync_attempt run by (rule stops_at_failureD)
  have thrown: "isl r \<Longrightarrow> blacklist_meta w' = blacklist_meta w"
    using meta_on_throw_sync_attempt [of e config] run
    by (auto simp: meta_on_throw_def dest: spec [of _ w])
  have state: "snd (syncBlacklist e config w) = w'"
    using run by (cases r) (simp_all add: syncBlacklist_def try_catch_def ret_def)
  have result: "fst (syncBlacklist e config w) = (case r of Inl err \<Rightarrow> Inr False | Inr b \<Rightarrow> Inr b)"
    using run by (cases r) (simp_all add: syncBlacklist_def try_catch_def ret_def)
  have 1: "\<exists>b. fst (syncBlacklist e config w) = Inr b"
    unfolding result by (cases r) auto
  have 2: "\<exists>evs. history (snd (syncBlacklist e config w)) = history w @ evs \<and>
      (\<not> calls_ok e (history w) evs \<longrightarrow>
         fst (syncBlacklist e config w) = Inr False \<and>
         blacklist_meta (snd (syncBlacklist e config w)) = blacklist_meta w \<and>
         calls_ok e (history w) (butlast evs) \<and>
         call_fails e (history w @ butlast evs) (last evs))"
    unfolding state result using h c thrown
    by (intro exI [of _ evs]) (cases r; auto)
  have 3: "isl (fst (sync_attempt e config w)) \<longrightarrow>
      fst (syncBlacklist e config w) = Inr False \<and>
      snd (syncBlacklist e config w) = snd (sync_attempt e config w) \<and>
      blacklist_meta (snd (syncBlacklist e config w)) = blacklist_meta w"
    unfolding state result using run thrown by (cases r) simp_all
  from 1 2 3 show ?thesis by blast
qed

theorem sync_never_raises_witness:
  "history (snd (syncBlacklist faulty_env example_config stale_world)) =
     [Db DbGet ''blacklist_meta'', Db DbGet ''blacklist_meta'',
      HttpPost ''https://blacklist.example/sync'' [(''revision'', JStr []), (''instanceId'', JStr ''inst-1'')],
      Db DbRemove ''blacklist_users'', Db DbRemove ''blacklist_whitelist'',
      Db DbUpsert ''blacklist_users''] \<and>
   call_fails faulty_env
     [Db DbGet ''blacklist_meta'', Db DbGet ''blacklist_meta'',
      HttpPost ''https://blacklist.example/sync'' [(''revision'', JStr []), (''instanceId'', JStr ''inst-1'')],
      Db DbRemove ''blacklist_users'', Db DbRemove ''blacklist_whitelist'']
     (Db DbUpsert ''blacklist_users'') \<and>
   fst (syncBlacklist faulty_env example_config stale_world) = Inr False \<and>
   blacklist_meta (snd (syncBlacklist faulty_env example_config stale_world)) ''sync_revision'' = Some [] \<and>
   blacklist_users (snd (syncBlacklist faulty_env example_config stale_world)) ''u1'' = None \<and>
   history (snd (syncBlacklist quiet_env example_config stale_world)) =
     [Db DbGet ''blacklist_meta'', Db DbGet ''blacklist_meta'',
      HttpPost ''https://blacklist.example/sync'' [(''revision'', JStr []), (''instanceId'', JStr ''inst-1'')]] \<and>
   fst (syncBlacklist quiet_env example_config stale_world) = Inr False \<and>
   blacklist_meta (snd (syncBlacklist quiet_env example_config stale_world)) ''sync_revision'' = Some []"
proof -
  let ?post = "HttpPost ''https://blacklist.example/sync'' [(''revision'', JStr []), (''instanceId'', JStr ''inst-1'')]"
  let ?evs = "[Db DbGet ''blacklist_meta'', Db DbGet ''blacklist_meta'', ?post,
               Db DbRemove ''blacklist_users'', Db DbRemove ''blacklist_whitelist'',
               Db DbUpsert ''blacklist_users'']"
  have run: "sync_attempt faulty_env example_config stale_world =
               (Inl StoreError,
                stale_world\<lparr>blacklist_users := Map.empty, blacklist_whitelist := Map.empty,
                            history := ?evs, lock_trace := [False, False, False, False, False, False]\<rparr>)"
    by (simp add: sync_attempt_def bnd_def db_get_meta_def db_call_def post_sync_def
        record_event_def faulty_env_def quiet_env_def stale_world_def example_config_def
        scenario_response_def full_replace_def db_remove_all_users_def db_remove_all_whitelist_def
        blacklistData_def upsert_users_batched.simps db_upsert_users_def)
  have hist: "history (snd (syncBlacklist faulty_env example_config stale_world)) = ?evs"
    and users: "blacklist_users (snd (syncBlacklist faulty_env example_config stale_world)) ''u1'' = None"
    by (simp_all add: syncBlacklist_def try_catch_def run ret_def)
  have failed: "\<not> calls_ok faulty_env (history stale_world) ?evs"
    and last_one: "call_fails faulty_env
       [Db DbGet ''blacklist_meta'', Db DbGet ''blacklist_meta'', ?post,
        Db DbRemove ''blacklist_users'', Db DbRemove ''blacklist_whitelist'']
       (Db DbUpsert ''blacklist_users'')"
    by (simp_all add: call_fails_def faulty_env_def quiet_env_def stale_world_def)
  have rev: "blacklist_meta stale_world ''sync_revision'' = Some []"
    by (simp add: stale_world_def)
  have a: "fst (syncBlacklist faulty_env example_config stale_world) = Inr False \<and>
           blacklist_meta (snd (syncBlacklist faulty_env example_config stale_world)) = blacklist_meta stale_world"
    using sync_never_raises [of faulty_env example_config stale_world] failed
    unfolding hist by (auto simp: stale_world_def)
  have run2: "sync_attempt quiet_env example_config stale_world =
               (Inl (RequestError timeout_error),
                stale_world\<lparr>history := [Db DbGet ''blacklist_meta'', Db DbGet ''blacklist_meta'', ?post],
                            lock_trace := [False, False, False]\<rparr>)"
    by (simp add: sync_attempt_def bnd_def db_get_meta_def db_call_def post_sync_def
        record_event_def quiet_env_def stale_world_def example_config_def)
  have hist2: "history (snd (syncBlacklist quiet_env example_config stale_world)) =
                 [Db DbGet ''blacklist_meta'', Db DbGet ''blacklist_meta'', ?post]"
    by (simp add: syncBlacklist_def try_catch_def run2 ret_def)
  have failed2: "\<not> calls_ok quiet_env (history stale_world)
                     [Db DbGet ''blacklist_meta'', Db DbGet ''blacklist_meta'', ?post]"
    by (simp add: call_fails_def quiet_env_def stale_world_def)
  have b: "fst (syncBlacklist quiet_env example_config stale_world) = Inr False \<and>
           blacklist_meta (snd (syncBlacklist quiet_env example_config stale_world)) = blacklist_meta stale_world"
    using sync_never_raises [of quiet_env example_config stale_world] failed2
    unfolding hist2 by (auto simp: stale_world_def)
  show ?thesis
    using hist last_one a users hist2 b rev by simp
qed

lemma bnd_Inr: "fst (m w) = Inr x \<Longrightarrow> bnd m f w = f x (snd (m w))"
  by (cases "m w") (simp add: bnd_def)

lemma upsert_whitelist_batched_ok:
  assumes "store_ok e"
  shows "fst (upsert_whitelist_batched e rows i w) = Inr () \<and>
         blacklist_whitelist (snd (upsert_whitelist_batched e rows i w)) =
           fold upsert_white (drop i rows) (blacklist_whitelist w) \<and>
         blacklist_users (snd (upsert_whitelist_batched e rows i w)) = blacklist_users w \<and>
         blacklist_meta (snd (upsert_whitelist_batched e rows i w)) = blacklist_meta w"
  using assms
proof (induction e rows i w rule: upsert_whitelist_batched.induct)
  case (1 e rows i w)
  show ?case
  proof (cases "i < length rows")
    case True
    let ?w1 = "(record_event (Db DbUpsert ''blacklist_whitelist'') w)
                \<lparr>blacklist_whitelist := fold upsert_white (take 100 (drop i rows)) (blacklist_whitelist w)\<rparr>"
    have step: "db_upsert_whitelist e (take 100 (drop i rows)) w = (Inr (), ?w1)"
      using "1.prems" by (rule db_upsert_whitelist_ok)
    have unfold: "upsert_whitelist_batched e rows i w = upsert_whitelist_batched e rows (i + 100) ?w1"
      using True step by (simp add: upsert_whitelist_batched.simps [of e rows i w])
    have ih: "fst (upsert_whitelist_batched e rows (i + 100) ?w1) = Inr () \<and>
         blacklist_whitelist (snd (upsert_whitelist_batched e rows (i + 100) ?w1)) =
           fold upsert_white (drop (i + 100) rows) (blacklist_whitelist ?w1) \<and>
         blacklist_users (snd (upsert_whitelist_batched e rows (i + 100) ?w1)) = blacklist_users ?w1 \<and>
         blacklist_meta (snd (upsert_whitelist_batched e rows (i + 100) ?w1)) = blacklist_meta ?w1"
      using "1.IH" [OF True step [symmetric] refl "1.prems"] .
    have d: "fold upsert_white (drop (100 + i) rows)
               (fold upsert_white (take 100 (drop i rows)) (blacklist_whitelist w)) =
             fold upsert_white (drop i rows) (blacklist_whitelist w)"
      using fold_take_drop [of upsert_white 100 "drop i rows" "blacklist_whitelist w"] by simp
    have d': "fold upsert_white (drop (i + 100) rows)
               (fold upsert_white (take 100 (drop i rows)) (blacklist_whitelist w)) =
             fold upsert_white (drop i rows) (blacklist_whitelist w)"
      using d by (simp add: add.commute)
    show ?thesis
      using ih by (simp add: unfold d d' record_event_def)
  next
    case False
    then show ?thesis
      by (simp add: upsert_whitelist_batched.simps [of e rows i w])
  qed
qed

lemma db_remove_all_users_ok:
  "store_ok e \<Longrightarrow> db_remove_all_users e w =
     (Inr (), (record_event (Db DbRemove ''blacklist_users'') w)\<lparr>blacklist_users := Map.empty\<rparr>)"
  by (simp add: db_remove_all_users_def db_call_ok record_event_def)

lemma db_remove_all_whitelist_ok:
  "store_ok e \<Longrightarrow> db_remove_all_whitelist e w =
     (Inr (), (record_event (Db DbRemove ''blacklist_whitelist'') w)\<lparr>blacklist_whitelist := Map.empty\<rparr>)"
  by (simp add: db_remove_all_whitelist_def db_call_ok record_event_def)

lemma full_replace_ok:
  assumes ok: "store_ok e" and d: "d \<noteq> DataMissing"
  shows "fst (full_replace e d w) = Inr (blacklistData d \<noteq> []) \<and>
         blacklist_users (snd (full_replace e d w)) = fold upsert_user (blacklistData d) Map.empty \<and>
         blacklist_whitelist (snd (full_replace e d w)) = fold upsert_white (whitelistData d) Map.empty \<and>
         blacklist_meta (snd (full_replace e d w)) = blacklist_meta w"
proof -
  let ?w2 = "(record_event (Db DbRemove ''blacklist_whitelist'')
               ((record_event (Db DbRemove ''blacklist_users'') w)\<lparr>blacklist_users := Map.empty\<rparr>))
             \<lparr>blacklist_whitelist := Map.empty\<rparr>"
  let ?users = "if blacklistData d \<noteq> []
                then bnd (upsert_users_batched e (blacklistData d) 0) (\<lambda>_. ret True)
                else ret False"
  let ?white = "if whitelistData d \<noteq> []
                then upsert_whitelist_batched e (whitelistData d) 0
                else ret ()"
  have start: "full_replace e d w = bnd ?users (\<lambda>hasNewEntries. bnd ?white (\<lambda>_. ret hasNewEntries)) ?w2"
    using d by (simp add: full_replace_def bnd_def db_remove_all_users_ok [OF ok]
        db_remove_all_whitelist_ok [OF ok])
  obtain w3 where users: "?users ?w2 = (Inr (blacklistData d \<noteq> []), w3)"
    and u3: "blacklist_users w3 = fold upsert_user (blacklistData d) Map.empty"
    and wl3: "blacklist_whitelist w3 = Map.empty"
    and m3: "blacklist_meta w3 = blacklist_meta w"
  proof (cases "blacklistData d = []")
    case True
    show ?thesis
      by (rule that [of ?w2]) (simp_all add: True ret_def record_event_def)
  next
    case False
    let ?r = "upsert_users_batched e (blacklistData d) 0 ?w2"
    have b: "fst ?r = Inr () \<and>
             blacklist_users (snd ?r) = fold upsert_user (drop 0 (blacklistData d)) (blacklist_users ?w2) \<and>
             blacklist_whitelist (snd ?r) = blacklist_whitelist ?w2 \<and>
             blacklist_meta (snd ?r) = blacklist_meta ?w2"
      by (rule upsert_users_batched_ok [OF ok])
    then have "?users ?w2 = (Inr True, snd ?r)"
      using False by (simp add: bnd_Inr ret_def)
    then show ?thesis
      using b False by (intro that [of "snd ?r"]) (simp_all add: record_event_def)
  qed
  obtain w4 where white: "?white w3 = (Inr (), w4)"
    and u4: "blacklist_users w4 = blacklist_users w3"
    and wl4: "blacklist_whitelist w4 = fold upsert_white (whitelistData d) Map.empty"
    and m4: "blacklist_meta w4 = blacklist_meta w3"
  proof (cases "whitelistData d = []")
    case True
    show ?thesis
      by (rule that [of w3]) (simp_all add: True ret_def wl3)
  next
    case False
    let ?r = "upsert_whitelist_batched e (whitelistData d) 0 w3"
    have b: "fst ?r = Inr () \<and>
             blacklist_whitelist (snd ?r) = fold upsert_white (drop 0 (whitelistData d)) (blacklist_whitelist w3) \<and>
             blacklist_users (snd ?r) = blacklist_users w3 \<and>
             blacklist_meta (snd ?r) = blacklist_meta w3"
      by (rule upsert_whitelist_batched_ok [OF ok])
    then have "?white w3 = (Inr (), snd ?r)"
      using False by (simp add: prod_eq_iff)
    then show ?thesis
      using b False by (intro that [of "snd ?r"]) (simp_all add: wl3)
  qed
  have "full_replace e d w = (Inr (blacklistData d \<noteq> []), w4)"
    unfolding start using users white by (simp add: bnd_def ret_def)
  then show ?thesis
    by (simp add: u3 u4 wl4 m3 m4)
qed

lemma db_upsert_meta_ok:
  "store_ok e \<Longrightarrow> db_upsert_meta e k v w =
     (Inr (), (record_event (Db DbUpsert ''blacklist_meta'') w)
                \<lparr>blacklist_meta := (blacklist_meta w)(k \<mapsto> v)\<rparr>)"
  by (simp add: db_upsert_meta_def db_call_ok record_event_def)

lemma bnd_db_get_meta:
  "store_ok e \<Longrightarrow>
   bnd (db_get_meta e k) f w = f (blacklist_meta w k) (record_event (Db DbGet ''blacklist_meta'') w)"
  by (simp add: bnd_def db_get_meta_def db_call_ok record_event_def)

lemma bnd_post_sync:
  "sync_answers e r \<Longrightarrow>
   bnd (post_sync e config revision instanceId) f w =
     f (Some r)
       (record_event
          (HttpPost (remoteApiUrl config @ ''/sync'')
             ((''revision'', JStr revision) #
              (case instanceId of Some i \<Rightarrow> [(''instanceId'', JStr i)] | None \<Rightarrow> []))) w)"
  by (simp add: bnd_def post_sync_def sync_answers_def Let_def)

lemma sync_attempt_answered:
  assumes ok: "store_ok e" and ans: "sync_answers e r" and s: "strategy r \<noteq> ''up-to-date''"
  shows "\<exists>w3. blacklist_users w3 = blacklist_users w \<and>
              blacklist_whitelist w3 = blacklist_whitelist w \<and>
              blacklist_meta w3 = blacklist_meta w \<and>
              sync_attempt e config w =
                bnd (if strategy r = ''full_replace'' then full_replace e (sync_payload r)
                     else if strategy r = ''incremental'' then incremental e (sync_payload r)
                     else ret False)
                  (\<lambda>hasNewEntries.
                   bnd (db_upsert_meta e ''sync_revision'' (newRevision r)) (\<lambda>_. ret hasNewEntries)) w3"
proof -
  let ?w3 = "record_event
               (HttpPost (remoteApiUrl config @ ''/sync'')
                  ((''revision'', JStr (case blacklist_meta w ''sync_revision'' of Some v \<Rightarrow> v | None \<Rightarrow> [])) #
                   (case blacklist_meta w ''instance_uuid'' of Some i \<Rightarrow> [(''instanceId'', JStr i)] | None \<Rightarrow> [])))
               (record_event (Db DbGet ''blacklist_meta'') (record_event (Db DbGet ''blacklist_meta'') w))"
  have m1: "blacklist_meta (record_event (Db DbGet ''blacklist_meta'') w) = blacklist_meta w"
    by (simp add: record_event_def)
  have "sync_attempt e config w =
          bnd (if strategy r = ''full_replace'' then full_replace e (sync_payload r)
               else if strategy r = ''incremental'' then incremental e (sync_payload r)
               else ret False)
            (\<lambda>hasNewEntries.
             bnd (db_upsert_meta e ''sync_revision'' (newRevision r)) (\<lambda>_. ret hasNewEntries)) ?w3"
    unfolding sync_attempt_def
    by (simp only: bnd_db_get_meta [OF ok] bnd_post_sync [OF ans] m1 option.case s if_False)
  moreover have "blacklist_users ?w3 = blacklist_users w \<and>
              blacklist_whitelist ?w3 = blacklist_whitelist w \<and>
              blacklist_meta ?w3 = blacklist_meta w"
    by (simp add: record_event_def)
  ultimately show ?thesis by blast
qed

lemma finish_sync:
  assumes ok: "store_ok e" and m: "fst (m w) = Inr b"
  shows "bnd m (\<lambda>hasNewEntries. bnd (db_upsert_meta e ''sync_revision'' v) (\<lambda>_. ret hasNewEntries)) w =
           (Inr b, (record_event (Db DbUpsert ''blacklist_meta'') (snd (m w)))
                      \<lparr>blacklist_meta := (blacklist_meta (snd (m w)))(''sync_revision'' \<mapsto> v)\<rparr>)"
  by (simp add: bnd_Inr [of m w b, OF m] bnd_def [of "db_upsert_meta e k x" for k x]
      db_upsert_meta_ok [OF ok] ret_def)

lemma sync_full_replace_general:
  assumes ok: "store_ok e" and ans: "sync_answers e r"
    and s: "strategy r = ''full_replace''" and d: "sync_payload r \<noteq> DataMissing"
  shows "fst (syncBlacklist e config w) = Inr (blacklistData (sync_payload r) \<noteq> []) \<and>
         blacklist_users (snd (syncBlacklist e config w)) =
           fold upsert_user (blacklistData (sync_payload r)) Map.empty \<and>
         blacklist_whitelist (snd (syncBlacklist e config w)) =
           fold upsert_white (whitelistData (sync_payload r)) Map.empty \<and>
         blacklist_meta (snd (syncBlacklist e config w)) ''sync_revision'' = Some (newRevision r)"
proof -
  have s': "strategy r \<noteq> ''up-to-date''" using s by simp
  obtain w3 where att: "sync_attempt e config w =
       bnd (full_replace e (sync_payload r))
         (\<lambda>hasNewEntries. bnd (db_upsert_meta e ''sync_revision'' (newRevision r)) (\<lambda>_. ret hasNewEntries)) w3"
    using sync_attempt_answered [OF ok ans s', of w config] s by auto
  let ?fr = "full_replace e (sync_payload r) w3"
  have fr: "fst ?fr = Inr (blacklistData (sync_payload r) \<noteq> []) \<and>
         blacklist_users (snd ?fr) = fold upsert_user (blacklistData (sync_payload r)) Map.empty \<and>
         blacklist_whitelist (snd ?fr) = fold upsert_white (whitelistData (sync_payload r)) Map.empty \<and>
         blacklist_meta (snd ?fr) = blacklist_meta w3"
    by (rule full_replace_ok [OF ok d])
  have "sync_attempt e config w =
          (Inr (blacklistData (sync_payload r) \<noteq> []),
           (record_event (Db DbUpsert ''blacklist_meta'') (snd ?fr))
              \<lparr>blacklist_meta := (blacklist_meta (snd ?fr))(''sync_revision'' \<mapsto> newRevision r)\<rparr>)"
    unfolding att using fr by (intro finish_sync [OF ok]) simp
  then show ?thesis
    using fr by (simp add: syncBlacklist_def try_catch_def record_event_def)
qed

lemma dom_fold_upsert_user:
  "dom (fold upsert_user rows t) = dom t \<union> row_user_id ` set rows"
  by (induction rows arbitrary: t) (auto simp: upsert_user_def)

lemma dom_fold_upsert_white:
  "dom (fold upsert_white rows t) = dom t \<union> wrow_user_id ` set rows"
  by (induction rows arbitrary: t) (auto simp: upsert_white_def)

lemma fold_upsert_user_other:
  "k \<notin> row_user_id ` set rows \<Longrightarrow> fold upsert_user rows t k = t k"
  by (induction rows arbitrary: t) (auto simp: upsert_user_def)

lemma fold_upsert_white_other:
  "k \<notin> wrow_user_id ` set rows \<Longrightarrow> fold upsert_white rows t k = t k"
  by (induction rows arbitrary: t) (auto simp: upsert_white_def)

lemma fold_upsert_user_once:
  assumes "distinct (map row_user_id rows)" and "row \<in> set rows"
  shows "fold upsert_user rows t (row_user_id row) = Some (merge_blacklist (t (row_user_id row)) row)"
  using assms
proof (induction rows arbitrary: t)
  case Nil
  then show ?case by simp
next
  case (Cons x xs)
  show ?case
  proof (cases "row = x")
    case True
    have "row_user_id x \<notin> row_user_id ` set xs"
      using Cons.prems(1) by simp
    then show ?thesis
      using True by (simp add: fold_upsert_user_other [of _ xs]) (simp add: upsert_user_def [abs_def] fun_upd_def)
  next
    case False
    then have in_xs: "row \<in> set xs"
      using Cons.prems(2) by simp
    then have other: "row_user_id row \<noteq> row_user_id x"
      using Cons.prems(1) by (fastforce simp: image_iff)
    have v: "upsert_user x t (row_user_id row) = t (row_user_id row)"
      using other by (simp add: upsert_user_def)
    have "fold upsert_user xs (upsert_user x t) (row_user_id row) =
            Some (merge_blacklist (upsert_user x t (row_user_id row)) row)"
      using Cons.prems(1) in_xs by (intro Cons.IH) simp_all
    then show ?thesis
      by (simp add: v)
  qed
qed

lemma fold_upsert_white_once:
  assumes "distinct (map wrow_user_id rows)" and "row \<in> set rows"
  shows "fold upsert_white rows t (wrow_user_id row) = Some (merge_whitelist (t (wrow_user_id row)) row)"
  using assms
proof (induction rows arbitrary: t)
  case Nil
  then show ?case by simp
next
  case (Cons x xs)
  show ?case
  proof (cases "row = x")
    case True
    have "wrow_user_id x \<notin> wrow_user_id ` set xs"
      using Cons.prems(1) by simp
    then show ?thesis
      using True by (simp add: fold_upsert_white_other [of _ xs]) (simp add: upsert_white_def [abs_def] fun_upd_def)
  next
    case False
    then have in_xs: "row \<in> set xs"
      using Cons.prems(2) by simp
    then have other: "wrow_user_id row \<noteq> wrow_user_id x"
      using Cons.prems(1) by (fastforce simp: image_iff)
    have v: "upsert_white x t (wrow_user_id row) = t (wrow_user_id row)"
      using other by (simp add: upsert_white_def)
    have "fold upsert_white xs (upsert_white x t) (wrow_user_id row) =
            Some (merge_whitelist (upsert_white x t (wrow_user_id row)) row)"
      using Cons.prems(1) in_xs by (intro Cons.IH) simp_all
    then show ?thesis
      by (simp add: v)
  qed
qed

text \<open>
  C3. With a store that does not fail and a remote authority that answers
  \<open>full_replace\<close>, whatever the tables held before and whatever the local revision:
  when the answer's \<open>data\<close> is an object, the block table after \<open>syncBlacklist\<close> is
  the delivered \<open>blacklist\<close> upserted row by row into an empty table and the exempt table
  is the delivered \<open>whitelist\<close> upserted into an empty table (a field that is missing
  counts as the empty list); so the identities in each table are exactly the delivered
  ones, and an identity delivered once holds its row inserted over the column defaults.
  When \<open>data\<close> is a bare array, its rows are the block rows and the exempt table is
  empty. \<open>sync_revision\<close> is the answer's \<open>newRevision\<close>, and the result says whether
  block rows were delivered.
  In the scenario (one row for \<open>u1\<close>, no whitelist, revision \<open>r1\<close>) the block table is
  exactly the row of \<open>u1\<close>, the exempt table is empty, \<open>sync_revision\<close> is \<open>r1\<close> and
  the result is true.
\<close>

theorem sync_full_replace:
  assumes "store_ok e" and "sync_answers e r" and "strategy r = ''full_replace''"
  shows "(sync_payload r = DataObject obj \<longrightarrow>
            fst (syncBlacklist e config w) = Inr (array_or_empty (d_blacklist obj) \<noteq> []) \<and>
            blacklist_users (snd (syncBlacklist e config w)) =
              fold upsert_user (array_or_empty (d_blacklist obj)) Map.empty \<and>
            blacklist_whitelist (snd (syncBlacklist e config w)) =
              fold upsert_white (array_or_empty (d_whitelist obj)) Map.empty \<and>
            dom (blacklist_users (snd (syncBlacklist e config w))) =
              row_user_id ` set (array_or_empty (d_blacklist obj)) \<and>
            dom (blacklist_whitelist (snd (syncBlacklist e config w))) =
              wrow_user_id ` set (array_or_empty (d_whitelist obj)) \<and>
            (distinct (map row_user_id (array_or_empty (d_blacklist obj))) \<longrightarrow>
               (\<forall>row \<in> set (array_or_empty (d_blacklist obj)).
                  blacklist_users (snd (syncBlacklist e config w)) (row_user_id row) =
                    Some (merge_blacklist None row))) \<and>
            (distinct (map wrow_user_id (array_or_empty (d_whitelist obj))) \<longrightarrow>
               (\<forall>row \<in> set (array_or_empty (d_whitelist obj)).
                  blacklist_whitelist (snd (syncBlacklist e config w)) (wrow_user_id row) =
                    Some (merge_whitelist None row))) \<and>
            blacklist_meta (snd (syncBlacklist e config w)) ''sync_revision'' = Some (newRevision r)) \<and>
         (sync_payload r = DataArray rows \<longrightarrow>
            fst (syncBlacklist e config w) = Inr (rows \<noteq> []) \<and>
            blacklist_users (snd (syncBlacklist e config w)) = fold upsert_user rows Map.empty \<and>
            blacklist_whitelist (snd (syncBlacklist e config w)) = Map.empty \<and>
            blacklist_meta (snd (syncBlacklist e config w)) ''sync_revision'' = Some (newRevision r)) \<and>
         (r = scenario_response \<longrightarrow>
            fst (syncBlacklist e config w) = Inr True \<and>
            blacklist_users (snd (syncBlacklist e config w)) =
              [''u1'' \<mapsto> \<lparr>bl_user_id = ''u1'', bl_reason = ''spam'', bl_operator_id = Some [],
                           bl_source_id = Some [], bl_disabled = False, bl_updated_at = None\<rparr>] \<and>
            blacklist_whitelist (snd (syncBlacklist e config w)) = Map.empty \<and>
            blacklist_meta (snd (syncBlacklist e config w)) ''sync_revision'' = Some ''r1'')"
proof (intro conjI impI)
  assume d: "sync_payload r = DataObject obj"
  let ?bl = "array_or_empty (d_blacklist obj)" and ?wl = "array_or_empty (d_whitelist obj)"
  have bl: "blacklistData (sync_payload r) = ?bl" and wl: "whitelistData (sync_payload r) = ?wl"
    by (simp_all add: d blacklistData_def whitelistData_def array_or_empty_def)
  have nm: "sync_payload r \<noteq> DataMissing"
    by (simp add: d)
  note g = sync_full_replace_general [OF assms nm, of config w, unfolded bl wl]
  show "fst (syncBlacklist e config w) = Inr (?bl \<noteq> [])"
    using g by blast
  show u: "blacklist_users (snd (syncBlacklist e config w)) = fold upsert_user ?bl Map.empty"
    using g by blast
  show l: "blacklist_whitelist (snd (syncBlacklist e config w)) = fold upsert_white ?wl Map.empty"
    using g by blast
  show "dom (blacklist_users (snd (syncBlacklist e config w))) = row_user_id ` set ?bl"
    unfolding u by (simp add: dom_fold_upsert_user)
  show "dom (blacklist_whitelist (snd (syncBlacklist e config w))) = wrow_user_id ` set ?wl"
    unfolding l by (simp add: dom_fold_upsert_white)
  show "blacklist_meta (snd (syncBlacklist e config w)) ''sync_revision'' = Some (newRevision r)"
    using g by blast
  {
    assume "distinct (map row_user_id ?bl)"
    then show "\<forall>row \<in> set ?bl.
        blacklist_users (snd (syncBlacklist e config w)) (row_user_id row) = Some (merge_blacklist None row)"
      unfolding u by (simp add: fold_upsert_user_once)
  }
  {
    assume "distinct (map wrow_user_id ?wl)"
    then show "\<forall>row \<in> set ?wl.
        blacklist_whitelist (snd (syncBlacklist e config w)) (wrow_user_id row) = Some (merge_whitelist None row)"
      unfolding l by (simp add: fold_upsert_white_once)
  }
next
  assume d: "sync_payload r = DataArray rows"
  have bl: "blacklistData (sync_payload r) = rows" and wl: "whitelistData (sync_payload r) = []"
    by (simp_all add: d blacklistData_def whitelistData_def)
  have nm: "sync_payload r \<noteq> DataMissing"
    by (simp add: d)
  note g = sync_full_replace_general [OF assms nm, of config w, unfolded bl wl]
  show "fst (syncBlacklist e config w) = Inr (rows \<noteq> [])"
    using g by blast
  show "blacklist_users (snd (syncBlacklist e config w)) = fold upsert_user rows Map.empty"
    using g by blast
  show "blacklist_whitelist (snd (syncBlacklist e config w)) = Map.empty"
    using g by simp
  show "blacklist_meta (snd (syncBlacklist e config w)) ''sync_revision'' = Some (newRevision r)"
    using g by blast
next
  assume r: "r = scenario_response"
  have d: "sync_payload r \<noteq> DataMissing"
    by (simp add: r scenario_response_def)
  have bl: "blacklistData (sync_payload r) =
              [\<lparr>row_user_id = ''u1'', row_reason = Some ''spam'', row_operator_id = None,
                row_source_id = None, row_disabled = Some False, row_updated_at = None\<rparr>]"
    and wl: "whitelistData (sync_payload r) = []" and rev: "newRevision r = ''r1''"
    by (simp_all add: r scenario_response_def blacklistData_def whitelistData_def)
  note g = sync_full_replace_general [OF assms d, of config w]
  show "fst (syncBlacklist e config w) = Inr True"
    using g by (simp add: bl)
  show "blacklist_users (snd (syncBlacklist e config w)) =
          [''u1'' \<mapsto> \<lparr>bl_user_id = ''u1'', bl_reason = ''spam'', bl_operator_id = Some [],
                       bl_source_id = Some [], bl_disabled = False, bl_updated_at = None\<rparr>]"
    using g by (simp add: bl upsert_user_def merge_blacklist_def)
  show "blacklist_whitelist (snd (syncBlacklist e config w)) = Map.empty"
    using g by (simp add: wl)
  show "blacklist_meta (snd (syncBlacklist e config w)) ''sync_revision'' = Some ''r1''"
    using g by (simp add: rev)
qed

theorem sync_full_replace_witness:
  "fst (syncBlacklist (quiet_env\<lparr>http_post_sync := \<lambda>h url body. SyncOk (Some scenario_response)\<rparr>)
          example_config stale_world) = Inr True \<and>
   blacklist_users (snd (syncBlacklist
          (quiet_env\<lparr>http_post_sync := \<lambda>h url body. SyncOk (Some scenario_response)\<rparr>)
          example_config stale_world)) =
     [''u1'' \<mapsto> \<lparr>bl_user_id = ''u1'', bl_reason = ''spam'', bl_operator_id = Some [],
                  bl_source_id = Some [], bl_disabled = False, bl_updated_at = None\<rparr>] \<and>
   blacklist_whitelist (snd (syncBlacklist
          (quiet_env\<lparr>http_post_sync := \<lambda>h url body. SyncOk (Some scenario_response)\<rparr>)
          example_config stale_world)) = Map.empty \<and>
   blacklist_meta (snd (syncBlacklist
          (quiet_env\<lparr>http_post_sync := \<lambda>h url body. SyncOk (Some scenario_response)\<rparr>)
          example_config stale_world)) ''sync_revision'' = Some ''r1'' \<and>
   fst (syncBlacklist (quiet_env\<lparr>http_post_sync := \<lambda>h url body. SyncOk (Some full_response)\<rparr>)
          example_config stale_world) = Inr True \<and>
   blacklist_users (snd (syncBlacklist
          (quiet_env\<lparr>http_post_sync := \<lambda>h url body. SyncOk (Some full_response)\<rparr>)
          example_config stale_world)) =
     [''u1'' \<mapsto> \<lparr>bl_user_id = ''u1'', bl_reason = ''spam'', bl_operator_id = Some [],
                  bl_source_id = Some [], bl_disabled = False, bl_updated_at = None\<rparr>,
      ''u2'' \<mapsto> \<lparr>bl_user_id = ''u2'', bl_reason = [], bl_operator_id = Some ''op'',
                  bl_source_id = Some [], bl_disabled = True, bl_updated_at = Some 9\<rparr>] \<and>
   blacklist_whitelist (snd (syncBlacklist
          (quiet_env\<lparr>http_post_sync := \<lambda>h url body. SyncOk (Some full_response)\<rparr>)
          example_config stale_world)) =
     [''vip'' \<mapsto> \<lparr>wl_user_id = ''vip'', wl_reason = Some ''staff'', wl_operator_id = Some [],
                   wl_created_at = Some 3\<rparr>] \<and>
   blacklist_meta (snd (syncBlacklist
          (quiet_env\<lparr>http_post_sync := \<lambda>h url body. SyncOk (Some full_response)\<rparr>)
          example_config stale_world)) ''sync_revision'' = Some ''r5'' \<and>
   blacklist_users stale_world ''old'' \<noteq> None \<and> blacklist_whitelist stale_world ''friend'' \<noteq> None"
proof -
  let ?e = "quiet_env\<lparr>http_post_sync := \<lambda>h url body. SyncOk (Some scenario_response)\<rparr>"
  let ?e' = "quiet_env\<lparr>http_post_sync := \<lambda>h url body. SyncOk (Some full_response)\<rparr>"
  let ?obj = "\<lparr>d_blacklist = Some [\<lparr>row_user_id = ''u1'', row_reason = Some ''spam'', row_operator_id = None,
                               row_source_id = None, row_disabled = Some False, row_updated_at = None\<rparr>,
                             \<lparr>row_user_id = ''u2'', row_reason = None, row_operator_id = Some ''op'',
                               row_source_id = None, row_disabled = Some True, row_updated_at = Some 9\<rparr>],
         d_whitelist = Some [\<lparr>wrow_user_id = ''vip'', wrow_reason = Some ''staff'',
                               wrow_operator_id = None, wrow_created_at = Some 3\<rparr>],
         d_upserts = None, d_deletes = None,
         d_whitelist_upserts = None, d_whitelist_deletes = None\<rparr>"
  have ok: "store_ok ?e" "store_ok ?e'"
    by (simp_all add: store_ok_def quiet_env_def)
  have ans: "sync_answers ?e scenario_response" "sync_answers ?e' full_response"
    by (simp_all add: sync_answers_def)
  have s: "strategy scenario_response = ''full_replace''" "strategy full_response = ''full_replace''"
    by (simp_all add: scenario_response_def full_response_def)
  have d: "sync_payload full_response = DataObject ?obj" and rev: "newRevision full_response = ''r5''"
    by (simp_all add: full_response_def)
  have first: "fst (syncBlacklist ?e example_config stale_world) = Inr True \<and>
     blacklist_users (snd (syncBlacklist ?e example_config stale_world)) =
       [''u1'' \<mapsto> \<lparr>bl_user_id = ''u1'', bl_reason = ''spam'', bl_operator_id = Some [],
                    bl_source_id = Some [], bl_disabled = False, bl_updated_at = None\<rparr>] \<and>
     blacklist_whitelist (snd (syncBlacklist ?e example_config stale_world)) = Map.empty \<and>
     blacklist_meta (snd (syncBlacklist ?e example_config stale_world)) ''sync_revision'' = Some ''r1''"
    using sync_full_replace [OF ok(1) ans(1) s(1), of _ example_config stale_world] by blast
  have second: "fst (syncBlacklist ?e' example_config stale_world) = Inr (array_or_empty (d_blacklist ?obj) \<noteq> []) \<and>
     blacklist_users (snd (syncBlacklist ?e' example_config stale_world)) =
       fold upsert_user (array_or_empty (d_blacklist ?obj)) Map.empty \<and>
     blacklist_whitelist (snd (syncBlacklist ?e' example_config stale_world)) =
       fold upsert_white (array_or_empty (d_whitelist ?obj)) Map.empty \<and>
     blacklist_meta (snd (syncBlacklist ?e' example_config stale_world)) ''sync_revision'' = Some (newRevision full_response)"
    using sync_full_replace [OF ok(2) ans(2) s(2), of ?obj example_config stale_world] d by blast
  have u: "fold upsert_user (array_or_empty (d_blacklist ?obj)) Map.empty =
     [''u1'' \<mapsto> \<lparr>bl_user_id = ''u1'', bl_reason = ''spam'', bl_operator_id = Some [],
                  bl_source_id = Some [], bl_disabled = False, bl_updated_at = None\<rparr>,
      ''u2'' \<mapsto> \<lparr>bl_user_id = ''u2'', bl_reason = [], bl_operator_id = Some ''op'',
                  bl_source_id = Some [], bl_disabled = True, bl_updated_at = Some 9\<rparr>]"
    by (simp add: array_or_empty_def upsert_user_def merge_blacklist_def)
  have l: "fold upsert_white (array_or_empty (d_whitelist ?obj)) Map.empty =
     [''vip'' \<mapsto> \<lparr>wl_user_id = ''vip'', wl_reason = Some ''staff'', wl_operator_id = Some [],
                   wl_created_at = Some 3\<rparr>]"
    by (simp add: array_or_empty_def upsert_white_def merge_whitelist_def)
  have before: "blacklist_users stale_world ''old'' \<noteq> None \<and> blacklist_whitelist stale_world ''friend'' \<noteq> None"
    by (simp add: stale_world_def)
  have second': "fst (syncBlacklist ?e' example_config stale_world) = Inr True \<and>
     blacklist_users (snd (syncBlacklist ?e' example_config stale_world)) =
       [''u1'' \<mapsto> \<lparr>bl_user_id = ''u1'', bl_reason = ''spam'', bl_operator_id = Some [],
                  bl_source_id = Some [], bl_disabled = False, bl_updated_at = None\<rparr>,
        ''u2'' \<mapsto> \<lparr>bl_user_id = ''u2'', bl_reason = [], bl_operator_id = Some ''op'',
                  bl_source_id = Some [], bl_disabled = True, bl_updated_at = Some 9\<rparr>] \<and>
     blacklist_whitelist (snd (syncBlacklist ?e' example_config stale_world)) =
       [''vip'' \<mapsto> \<lparr>wl_user_id = ''vip'', wl_reason = Some ''staff'', wl_operator_id = Some [],
                   wl_created_at = Some 3\<rparr>] \<and>
     blacklist_meta (snd (syncBlacklist ?e' example_config stale_world)) ''sync_revision'' = Some ''r5''"
    using second unfolding u l rev by (simp add: array_or_empty_def)
  show ?thesis
    using first second' before by blast
qed

lemma remove_keys_Nil [simp]: "remove_keys [] t = t"
  by (simp add: remove_keys_def)

lemma db_remove_users_ok:
  "store_ok e \<Longrightarrow> db_remove_users e ks w =
     (Inr (), (record_event (Db DbRemove ''blacklist_users'') w)
                \<lparr>blacklist_users := remove_keys ks (blacklist_users w)\<rparr>)"
  by (simp add: db_remove_users_def db_call_ok record_event_def)

lemma db_remove_whitelist_ok:
  "store_ok e \<Longrightarrow> db_remove_whitelist e ks w =
     (Inr (), (record_event (Db DbRemove ''blacklist_whitelist'') w)
                \<lparr>blacklist_whitelist := remove_keys ks (blacklist_whitelist w)\<rparr>)"
  by (simp add: db_remove_whitelist_def db_call_ok record_event_def)

lemma when_nonempty_upsert_users:
  assumes "store_ok e"
  shows "\<exists>w'. when_nonempty xs (db_upsert_users e) w = (Inr (), w') \<and>
              blacklist_users w' = fold upsert_user (array_or_empty xs) (blacklist_users w) \<and>
              blacklist_whitelist w' = blacklist_whitelist w"
  using assms
  by (simp add: when_nonempty_def ret_def db_upsert_users_ok array_or_empty_def record_event_def
      split: option.splits list.splits)

lemma when_nonempty_remove_users:
  assumes "store_ok e"
  shows "\<exists>w'. when_nonempty xs (db_remove_users e) w = (Inr (), w') \<and>
              blacklist_users w' = remove_keys (array_or_empty xs) (blacklist_users w) \<and>
              blacklist_whitelist w' = blacklist_whitelist w"
  using assms
  by (simp add: when_nonempty_def ret_def db_remove_users_ok array_or_empty_def record_event_def
      split: option.splits list.splits)

lemma when_nonempty_upsert_whitelist:
  assumes "store_ok e"
  shows "\<exists>w'. when_nonempty xs (db_upsert_whitelist e) w = (Inr (), w') \<and>
              blacklist_whitelist w' = fold upsert_white (array_or_empty xs) (blacklist_whitelist w) \<and>
              blacklist_users w' = blacklist_users w"
  using assms
  by (simp add: when_nonempty_def ret_def db_upsert_whitelist_ok array_or_empty_def record_event_def
      split: option.splits list.splits)

lemma when_nonempty_remove_whitelist:
  assumes "store_ok e"
  shows "\<exists>w'. when_nonempty xs (db_remove_whitelist e) w = (Inr (), w') \<and>
              blacklist_whitelist w' = remove_keys (array_or_empty xs) (blacklist_whitelist w) \<and>
              blacklist_users w' = blacklist_users w"
  using assms
  by (simp add: when_nonempty_def ret_def db_remove_whitelist_ok array_or_empty_def record_event_def
      split: option.splits list.splits)

lemma bnd_eq: "m w = (Inr x, w') \<Longrightarrow> bnd m f w = f x w'"
  by (simp add: bnd_def)

lemma incremental_ok:
  assumes ok: "store_ok e"
  shows "\<exists>b. fst (incremental e (DataObject obj) w) = Inr b" 
    and "blacklist_users (snd (incremental e (DataObject obj) w)) =
           incremental_users (DataObject obj) (blacklist_users w)"
    and "blacklist_whitelist (snd (incremental e (DataObject obj) w)) =
           incremental_whitelist (DataObject obj) (blacklist_whitelist w)"
proof -
  obtain w1 where s1: "when_nonempty (d_upserts obj) (db_upsert_users e) w = (Inr (), w1)"
    and u1: "blacklist_users w1 = fold upsert_user (array_or_empty (d_upserts obj)) (blacklist_users w)"
    and l1: "blacklist_whitelist w1 = blacklist_whitelist w"
    using when_nonempty_upsert_users [OF ok] by blast
  obtain w2 where s2: "when_nonempty (d_deletes obj) (db_remove_users e) w1 = (Inr (), w2)"
    and u2: "blacklist_users w2 = remove_keys (array_or_empty (d_deletes obj)) (blacklist_users w1)"
    and l2: "blacklist_whitelist w2 = blacklist_whitelist w1"
    using when_nonempty_remove_users [OF ok] by blast
  obtain w3 where s3: "when_nonempty (d_whitelist_upserts obj) (db_upsert_whitelist e) w2 = (Inr (), w3)"
    and l3: "blacklist_whitelist w3 =
               fold upsert_white (array_or_empty (d_whitelist_upserts obj)) (blacklist_whitelist w2)"
    and u3: "blacklist_users w3 = blacklist_users w2"
    using when_nonempty_upsert_whitelist [OF ok] by blast
  obtain w4 where s4: "when_nonempty (d_whitelist_deletes obj) (db_remove_whitelist e) w3 = (Inr (), w4)"
    and l4: "blacklist_whitelist w4 =
               remove_keys (array_or_empty (d_whitelist_deletes obj)) (blacklist_whitelist w3)"
    and u4: "blacklist_users w4 = blacklist_users w3"
    using when_nonempty_remove_whitelist [OF ok] by blast
  have run: "incremental e (DataObject obj) w =
               (Inr (case d_upserts obj of Some (x # rest) \<Rightarrow> True | _ \<Rightarrow> False), w4)"
    by (simp add: incremental_def ret_def
        bnd_eq [of "when_nonempty (d_upserts obj) (db_upsert_users e)" w, OF s1]
        bnd_eq [of "when_nonempty (d_deletes obj) (db_remove_users e)" w1, OF s2]
        bnd_eq [of "when_nonempty (d_whitelist_upserts obj) (db_upsert_whitelist e)" w2, OF s3]
        bnd_eq [of "when_nonempty (d_whitelist_deletes obj) (db_remove_whitelist e)" w3, OF s4])
  show "\<exists>b. fst (incremental e (DataObject obj) w) = Inr b"
    by (simp add: run)
  show "blacklist_users (snd (incremental e (DataObject obj) w)) =
           incremental_users (DataObject obj) (blacklist_users w)"
    by (simp add: run incremental_users_def u1 u2 u3 u4)
  show "blacklist_whitelist (snd (incremental e (DataObject obj) w)) =
           incremental_whitelist (DataObject obj) (blacklist_whitelist w)"
    by (simp add: run incremental_whitelist_def l1 l2 l3 l4)
qed

text \<open>
  Keyed upserts followed by keyed removes are idempotent. At one key the rows of a
  payload act as a single overwrite: two rows for the same key merge into one.
\<close>

lemma fold_upsert_at_key:
  "fold (\<lambda>r t. t(key r \<mapsto> mrg (t (key r)) r)) rows t k =
   fold (\<lambda>r v. if key r = k then Some (mrg v r) else v) rows (t k)"
  by (induction rows arbitrary: t) auto

lemma fold_overwrite_shape:
  assumes comb: "\<And>r1 r2. key r1 = key r2 \<Longrightarrow> \<exists>R. key R = key r2 \<and> (\<forall>v. mrg (Some (mrg v r1)) r2 = mrg v R)"
  shows "(\<forall>v. fold (\<lambda>r v. if key r = k then Some (mrg v r) else v) rows v = v) \<or>
         (\<exists>R. key R = k \<and> (\<forall>v. fold (\<lambda>r v. if key r = k then Some (mrg v r) else v) rows v = Some (mrg v R)))"
proof (induction rows rule: rev_induct)
  case Nil
  then show ?case by simp
next
  case (snoc r rows)
  let ?g = "\<lambda>r v. if key r = k then Some (mrg v r) else v"
  show ?case
  proof (cases "key r = k")
    case False
    then show ?thesis using snoc.IH by simp
  next
    case True
    from snoc.IH show ?thesis
    proof
      assume "\<forall>v. fold ?g rows v = v"
      then have "\<forall>v. fold ?g (rows @ [r]) v = Some (mrg v r)"
        using True by simp
      then show ?thesis using True by blast
    next
      assume "\<exists>R. key R = k \<and> (\<forall>v. fold ?g rows v = Some (mrg v R))"
      then obtain R where R: "key R = k" "\<forall>v. fold ?g rows v = Some (mrg v R)"
        by blast
      obtain R' where R': "key R' = key r" "\<forall>v. mrg (Some (mrg v R)) r = mrg v R'"
        using comb [of R r] R(1) True by auto
      have "\<forall>v. fold ?g (rows @ [r]) v = Some (mrg v R')"
        using True R(2) R'(2) by simp
      then show ?thesis using R'(1) True by blast
    qed
  qed
qed

lemma upsert_remove_idempotent:
  assumes comb: "\<And>r1 r2. key r1 = key r2 \<Longrightarrow> \<exists>R. key R = key r2 \<and> (\<forall>v. mrg (Some (mrg v r1)) r2 = mrg v R)"
    and idem: "\<And>r v. mrg (Some (mrg v r)) r = mrg v r"
  shows "remove_keys ks (fold (\<lambda>r t. t(key r \<mapsto> mrg (t (key r)) r)) rows
           (remove_keys ks (fold (\<lambda>r t. t(key r \<mapsto> mrg (t (key r)) r)) rows t))) =
         remove_keys ks (fold (\<lambda>r t. t(key r \<mapsto> mrg (t (key r)) r)) rows t)"
proof (rule ext)
  fix k
  let ?up = "\<lambda>r t. t(key r \<mapsto> mrg (t (key r)) r)"
  let ?g = "\<lambda>r v. if key r = k then Some (mrg v r) else v"
  show "remove_keys ks (fold ?up rows (remove_keys ks (fold ?up rows t))) k =
        remove_keys ks (fold ?up rows t) k"
  proof (cases "k \<in> set ks")
    case True
    then show ?thesis by (simp add: remove_keys_def)
  next
    case False
    have twice: "fold ?g rows (fold ?g rows (t k)) = fold ?g rows (t k)"
      using fold_overwrite_shape [of key mrg k rows, OF comb] idem by auto
    have "remove_keys ks (fold ?up rows (remove_keys ks (fold ?up rows t))) k =
          fold ?g rows (remove_keys ks (fold ?up rows t) k)"
      using False by (simp add: remove_keys_def fold_upsert_at_key)
    also have "\<dots> = fold ?g rows (fold ?g rows (t k))"
      using False by (simp add: remove_keys_def fold_upsert_at_key)
    also have "\<dots> = remove_keys ks (fold ?up rows t) k"
      using False twice by (simp add: remove_keys_def fold_upsert_at_key)
    finally show ?thesis .
  qed
qed

lemma merge_blacklist_twice:
  "\<exists>R. row_user_id R = row_user_id r2 \<and>
       (\<forall>v. merge_blacklist (Some (merge_blacklist v r1)) r2 = merge_blacklist v R)"
proof -
  let ?R = "\<lparr>row_user_id = row_user_id r2,
             row_reason = (case row_reason r2 of Some x \<Rightarrow> Some x | None \<Rightarrow> row_reason r1),
             row_operator_id = (case row_operator_id r2 of Some x \<Rightarrow> Some x | None \<Rightarrow> row_operator_id r1),
             row_source_id = (case row_source_id r2 of Some x \<Rightarrow> Some x | None \<Rightarrow> row_source_id r1),
             row_disabled = (case row_disabled r2 of Some x \<Rightarrow> Some x | None \<Rightarrow> row_disabled r1),
             row_updated_at = (case row_updated_at r2 of Some x \<Rightarrow> Some x | None \<Rightarrow> row_updated_at r1)\<rparr>"
  have "\<forall>v. merge_blacklist (Some (merge_blacklist v r1)) r2 = merge_blacklist v ?R"
    by (simp add: merge_blacklist_def Let_def split: option.splits)
  then show ?thesis
    by (intro exI [of _ ?R]) simp
qed

lemma merge_blacklist_idem: "merge_blacklist (Some (merge_blacklist v r)) r = merge_blacklist v r"
  by (simp add: merge_blacklist_def Let_def split: option.splits)

lemma merge_whitelist_twice:
  "\<exists>R. wrow_user_id R = wrow_user_id r2 \<and>
       (\<forall>v. merge_whitelist (Some (merge_whitelist v r1)) r2 = merge_whitelist v R)"
proof -
  let ?R = "\<lparr>wrow_user_id = wrow_user_id r2,
             wrow_reason = (case wrow_reason r2 of Some x \<Rightarrow> Some x | None \<Rightarrow> wrow_reason r1),
             wrow_operator_id = (case wrow_operator_id r2 of Some x \<Rightarrow> Some x | None \<Rightarrow> wrow_operator_id r1),
             wrow_created_at = (case wrow_created_at r2 of Some x \<Rightarrow> Some x | None \<Rightarrow> wrow_created_at r1)\<rparr>"
  have "\<forall>v. merge_whitelist (Some (merge_whitelist v r1)) r2 = merge_whitelist v ?R"
    by (simp add: merge_whitelist_def Let_def split: option.splits)
  then show ?thesis
    by (intro exI [of _ ?R]) simp
qed

lemma merge_whitelist_idem: "merge_whitelist (Some (merge_whitelist v r)) r = merge_whitelist v r"
  by (simp add: merge_whitelist_def Let_def split: option.splits)

lemma upsert_user_eq: "upsert_user = (\<lambda>r t. t(row_user_id r \<mapsto> merge_blacklist (t (row_user_id r)) r))"
  by (intro ext) (simp add: upsert_user_def)

lemma upsert_white_eq: "upsert_white = (\<lambda>r t. t(wrow_user_id r \<mapsto> merge_whitelist (t (wrow_user_id r)) r))"
  by (intro ext) (simp add: upsert_white_def)

lemma incremental_users_idempotent:
  "incremental_users d (incremental_users d t) = incremental_users d t"
proof (cases d)
  case (DataObject obj)
  show ?thesis
    unfolding DataObject incremental_users_def sync_data.case upsert_user_eq
    by (rule upsert_remove_idempotent) (simp_all add: merge_blacklist_twice merge_blacklist_idem)
qed (simp_all add: incremental_users_def)

lemma incremental_whitelist_idempotent:
  "incremental_whitelist d (incremental_whitelist d t) = incremental_whitelist d t"
proof (cases d)
  case (DataObject obj)
  show ?thesis
    unfolding DataObject incremental_whitelist_def sync_data.case upsert_white_eq
    by (rule upsert_remove_idempotent) (simp_all add: merge_whitelist_twice merge_whitelist_idem)
qed (simp_all add: incremental_whitelist_def)

lemma sync_incremental_tables:
  assumes ok: "store_ok e" and ans: "sync_answers e r" and s: "strategy r = ''incremental''"
  shows "blacklist_users (snd (syncBlacklist e config w)) =
           incremental_users (sync_payload r) (blacklist_users w) \<and>
         blacklist_whitelist (snd (syncBlacklist e config w)) =
           incremental_whitelist (sync_payload r) (blacklist_whitelist w)"
proof -
  let ?K = "\<lambda>hasNewEntries. bnd (db_upsert_meta e ''sync_revision'' (newRevision r)) (\<lambda>_. ret hasNewEntries)"
  have s': "strategy r \<noteq> ''up-to-date''" and s'': "strategy r \<noteq> ''full_replace''"
    using s by simp_all
  obtain w3 where u3: "blacklist_users w3 = blacklist_users w"
    and l3: "blacklist_whitelist w3 = blacklist_whitelist w"
    and att: "sync_attempt e config w = bnd (incremental e (sync_payload r)) ?K w3"
    using sync_attempt_answered [OF ok ans s', of w config] s s'' by auto
  show ?thesis
  proof (cases "sync_payload r")
    case DataMissing
    have "sync_attempt e config w = (Inl TypeError, w3)"
      unfolding att by (simp add: DataMissing incremental_def throw_def)
    then show ?thesis
      by (simp add: syncBlacklist_def try_catch_def ret_def u3 l3 DataMissing
          incremental_users_def incremental_whitelist_def)
  next
    case (DataArray rows)
    have "fst (incremental e (sync_payload r) w3) = Inr False" and "snd (incremental e (sync_payload r) w3) = w3"
      by (simp_all add: DataArray incremental_def ret_def)
    then have "sync_attempt e config w =
            (Inr False, (record_event (Db DbUpsert ''blacklist_meta'') w3)
                      \<lparr>blacklist_meta := (blacklist_meta w3)(''sync_revision'' \<mapsto> newRevision r)\<rparr>)"
      unfolding att using finish_sync [OF ok, of "incremental e (sync_payload r)" w3 False "newRevision r"]
      by simp
    then show ?thesis
      by (simp add: syncBlacklist_def try_catch_def record_event_def u3 l3 DataArray
          incremental_users_def incremental_whitelist_def)
  next
    case (DataObject obj)
    obtain b where b: "fst (incremental e (DataObject obj) w3) = Inr b"
      using incremental_ok(1) [OF ok] by blast
    have "sync_attempt e config w =
            (Inr b, (record_event (Db DbUpsert ''blacklist_meta'') (snd (incremental e (DataObject obj) w3)))
                      \<lparr>blacklist_meta := (blacklist_meta (snd (incremental e (DataObject obj) w3)))
                                           (''sync_revision'' \<mapsto> newRevision r)\<rparr>)"
      unfolding att DataObject
      using finish_sync [OF ok, of "incremental e (DataObject obj)" w3 b "newRevision r"] b by simp
    then show ?thesis
      by (simp add: syncBlacklist_def try_catch_def record_event_def DataObject
          incremental_ok(2) [OF ok] incremental_ok(3) [OF ok] u3 l3)
  qed
qed

text \<open>
  C7. With a store that does not fail, a second \<open>syncBlacklist\<close> that receives the same
  incremental payload as the first leaves the block table and the exempt table exactly as
  the first one left them, from any starting state.
\<close>

theorem sync_incremental_idempotent:
  assumes "store_ok e" and "sync_answers e r" and "strategy r = ''incremental''"
  shows "blacklist_users (snd (syncBlacklist e config (snd (syncBlacklist e config w)))) =
           blacklist_users (snd (syncBlacklist e config w)) \<and>
         blacklist_whitelist (snd (syncBlacklist e config (snd (syncBlacklist e config w)))) =
           blacklist_whitelist (snd (syncBlacklist e config w))"
  using sync_incremental_tables [OF assms, of config w]
    sync_incremental_tables [OF assms, of config "snd (syncBlacklist e config w)"]
  by (simp add: incremental_users_idempotent incremental_whitelist_idempotent)

theorem sync_incremental_idempotent_witness:
  "blacklist_users (snd (syncBlacklist
       (quiet_env\<lparr>http_post_sync := \<lambda>h url body. SyncOk (Some incremental_response)\<rparr>) example_config
       (snd (syncBlacklist
          (quiet_env\<lparr>http_post_sync := \<lambda>h url body. SyncOk (Some incremental_response)\<rparr>)
          example_config stale_world)))) =
   blacklist_users (snd (syncBlacklist
       (quiet_env\<lparr>http_post_sync := \<lambda>h url body. SyncOk (Some incremental_response)\<rparr>)
       example_config stale_world)) \<and>
   blacklist_whitelist (snd (syncBlacklist
       (quiet_env\<lparr>http_post_sync := \<lambda>h url body. SyncOk (Some incremental_response)\<rparr>) example_config
       (snd (syncBlacklist
          (quiet_env\<lparr>http_post_sync := \<lambda>h url body. SyncOk (Some incremental_response)\<rparr>)
          example_config stale_world)))) =
   blacklist_whitelist (snd (syncBlacklist
       (quiet_env\<lparr>http_post_sync := \<lambda>h url body. SyncOk (Some incremental_response)\<rparr>)
       example_config stale_world)) \<and>
   blacklist_users (snd (syncBlacklist
       (quiet_env\<lparr>http_post_sync := \<lambda>h url body. SyncOk (Some incremental_response)\<rparr>)
       example_config stale_world)) ''old'' =
     Some \<lparr>bl_user_id = ''old'', bl_reason = ''abuse'', bl_operator_id = None,
           bl_source_id = None, bl_disabled = True, bl_updated_at = Some 5\<rparr> \<and>
   blacklist_whitelist (snd (syncBlacklist
       (quiet_env\<lparr>http_post_sync := \<lambda>h url body. SyncOk (Some incremental_response)\<rparr>)
       example_config stale_world)) ''friend'' = None"
proof -
  let ?e = "quiet_env\<lparr>http_post_sync := \<lambda>h url body. SyncOk (Some incremental_response)\<rparr>"
  have ok: "store_ok ?e"
    by (simp add: store_ok_def quiet_env_def)
  have ans: "sync_answers ?e incremental_response"
    by (simp add: sync_answers_def)
  have s: "strategy incremental_response = ''incremental''"
    by (simp add: incremental_response_def)
  have first: "blacklist_users (snd (syncBlacklist ?e example_config stale_world)) ''old'' =
                 Some \<lparr>bl_user_id = ''old'', bl_reason = ''abuse'', bl_operator_id = None,
                       bl_source_id = None, bl_disabled = True, bl_updated_at = Some 5\<rparr> \<and>
               blacklist_whitelist (snd (syncBlacklist ?e example_config stale_world)) ''friend'' = None"
    using sync_incremental_tables [OF ok ans s, of example_config stale_world]
    by (simp add: incremental_response_def incremental_users_def incremental_whitelist_def
        array_or_empty_def stale_world_def remove_keys_def upsert_user_def upsert_white_def
        merge_blacklist_def merge_whitelist_def)
  show ?thesis
    using sync_incremental_idempotent [OF ok ans s, of example_config stale_world] first
    by blast
qed

section \<open>The offline queue\<close>

lemma under_lockI:
  assumes "\<And>w. isProcessingQueue w \<Longrightarrow>
          isProcessingQueue (snd (m w)) \<and>
          (\<exists>evs. history (snd (m w)) = history w @ evs \<and>
                 lock_trace (snd (m w)) = lock_trace w @ replicate (length evs) True)"
  shows "under_lock m"
  using assms by (simp add: under_lock_def)

lemma under_lockD:
  assumes "under_lock m" and "isProcessingQueue w" and "m w = (r, w')"
  obtains evs where "isProcessingQueue w'" and "history w' = history w @ evs"
    and "lock_trace w' = lock_trace w @ replicate (length evs) True"
proof -
  have "isProcessingQueue (snd (m w)) \<and>
          (\<exists>evs. history (snd (m w)) = history w @ evs \<and>
                 lock_trace (snd (m w)) = lock_trace w @ replicate (length evs) True)"
    using assms(1,2) by (simp add: under_lock_def)
  then show ?thesis
    using assms(3) that by auto
qed

lemma under_lock_ret: "under_lock (ret x)"
  by (rule under_lockI) (simp add: ret_def)

lemma under_lock_throw: "under_lock (throw err)"
  by (rule under_lockI) (simp add: throw_def)

lemma under_lock_if: "under_lock m \<Longrightarrow> under_lock n \<Longrightarrow> under_lock (if c then m else n)"
  by simp

lemma under_lock_bnd:
  assumes "under_lock m" and "\<And>x. under_lock (f x)"
  shows "under_lock (bnd m f)"
proof (rule under_lockI)
  fix w :: world
  assume locked: "isProcessingQueue w"
  obtain r w' where mw: "m w = (r, w')"
    by (cases "m w")
  obtain evs where l1: "isProcessingQueue w'" and h1: "history w' = history w @ evs"
    and t1: "lock_trace w' = lock_trace w @ replicate (length evs) True"
    using assms(1) locked mw by (rule under_lockD)
  show "isProcessingQueue (snd (bnd m f w)) \<and>
          (\<exists>evs. history (snd (bnd m f w)) = history w @ evs \<and>
                 lock_trace (snd (bnd m f w)) = lock_trace w @ replicate (length evs) True)"
  proof (cases r)
    case (Inl err)
    then have "bnd m f w = (Inl err, w')"
      using mw by (simp add: bnd_def)
    then show ?thesis
      using l1 h1 t1 by auto
  next
    case (Inr x)
    obtain r2 w2 where fw: "f x w' = (r2, w2)"
      by (cases "f x w'")
    obtain evs2 where l2: "isProcessingQueue w2" and h2: "history w2 = history w' @ evs2"
      and t2: "lock_trace w2 = lock_trace w' @ replicate (length evs2) True"
      using assms(2) [of x] l1 fw by (rule under_lockD)
    have "bnd m f w = (r2, w2)"
      using mw Inr fw by (simp add: bnd_def)
    moreover have "history w2 = history w @ (evs @ evs2)"
      and "lock_trace w2 = lock_trace w @ replicate (length (evs @ evs2)) True"
      using h1 h2 t1 t2 by (simp_all add: replicate_add)
    ultimately show ?thesis
      using l2 by (metis snd_conv)
  qed
qed

lemma under_lock_try_catch:
  assumes "under_lock m" and "\<And>err. under_lock (h err)"
  shows "under_lock (try_catch m h)"
proof (rule under_lockI)
  fix w :: world
  assume locked: "isProcessingQueue w"
  obtain r w' where mw: "m w = (r, w')"
    by (cases "m w")
  obtain evs where l1: "isProcessingQueue w'" and h1: "history w' = history w @ evs"
    and t1: "lock_trace w' = lock_trace w @ replicate (length evs) True"
    using assms(1) locked mw by (rule under_lockD)
  show "isProcessingQueue (snd (try_catch m h w)) \<and>
          (\<exists>evs. history (snd (try_catch m h w)) = history w @ evs \<and>
                 lock_trace (snd (try_catch m h w)) = lock_trace w @ replicate (length evs) True)"
  proof (cases r)
    case (Inr x)
    then have "try_catch m h w = (Inr x, w')"
      using mw by (simp add: try_catch_def)
    then show ?thesis
      using l1 h1 t1 by auto
  next
    case (Inl err)
    obtain r2 w2 where fw: "h err w' = (r2, w2)"
      by (cases "h err w'")
    obtain evs2 where l2: "isProcessingQueue w2" and h2: "history w2 = history w' @ evs2"
      and t2: "lock_trace w2 = lock_trace w' @ replicate (length evs2) True"
      using assms(2) [of err] l1 fw by (rule under_lockD)
    have "try_catch m h w = (r2, w2)"
      using mw Inl fw by (simp add: try_catch_def)
    moreover have "history w2 = history w @ (evs @ evs2)"
      and "lock_trace w2 = lock_trace w @ replicate (length (evs @ evs2)) True"
      using h1 h2 t1 t2 by (simp_all add: replicate_add)
    ultimately show ?thesis
      using l2 by (metis snd_conv)
  qed
qed

lemma under_lock_db_call:
  assumes "\<And>w. isProcessingQueue (snd (f w)) = isProcessingQueue w"
    and "\<And>w. history (snd (f w)) = history w" and "\<And>w. lock_trace (snd (f w)) = lock_trace w"
  shows "under_lock (db_call e op tbl f)"
proof (rule under_lockI)
  fix w :: world
  assume locked: "isProcessingQueue w"
  let ?w1 = "record_event (Db op tbl) w"
  have w1: "isProcessingQueue ?w1" "history ?w1 = history w @ [Db op tbl]"
    "lock_trace ?w1 = lock_trace w @ replicate (length [Db op tbl]) True"
    using locked by (simp_all add: record_event_def)
  have "snd (db_call e op tbl f w) = ?w1 \<or> snd (db_call e op tbl f w) = snd (f ?w1)"
    by (simp add: db_call_def split: prod.splits)
  then have "isProcessingQueue (snd (db_call e op tbl f w)) \<and>
             history (snd (db_call e op tbl f w)) = history w @ [Db op tbl] \<and>
             lock_trace (snd (db_call e op tbl f w)) = lock_trace w @ replicate (length [Db op tbl]) True"
    using w1 assms [of ?w1] by auto
  then show "isProcessingQueue (snd (db_call e op tbl f w)) \<and>
          (\<exists>evs. history (snd (db_call e op tbl f w)) = history w @ evs \<and>
                 lock_trace (snd (db_call e op tbl f w)) = lock_trace w @ replicate (length evs) True)"
    by blast
qed

lemma under_lock_post_application: "under_lock (post_application e config instanceId item)"
proof (rule under_lockI)
  fix w :: world
  assume locked: "isProcessingQueue w"
  let ?ev = "HttpPost (applications_url config) (offline_body instanceId item)"
  have "snd (post_application e config instanceId item w) = record_event ?ev w"
    by (simp add: post_application_def Let_def split: option.splits)
  then have "isProcessingQueue (snd (post_application e config instanceId item w)) \<and>
             history (snd (post_application e config instanceId item w)) = history w @ [?ev] \<and>
             lock_trace (snd (post_application e config instanceId item w)) =
               lock_trace w @ replicate (length [?ev]) True"
    using locked by (simp add: record_event_def)
  then show "isProcessingQueue (snd (post_application e config instanceId item w)) \<and>
          (\<exists>evs. history (snd (post_application e config instanceId item w)) = history w @ evs \<and>
                 lock_trace (snd (post_application e config instanceId item w)) =
                   lock_trace w @ replicate (length evs) True)"
    by blast
qed

lemma under_lock_process_item: "under_lock (process_item e config instanceId item)"
  unfolding process_item_def db_remove_request_def db_set_retryCount_def
  by (intro under_lock_if under_lock_try_catch under_lock_bnd under_lock_ret under_lock_db_call
      under_lock_post_application)
    simp_all

lemma drain_items_Cons:
  "drain_items e config instanceId (item # rest) =
     bnd (process_item e config instanceId item) (\<lambda>_. drain_items e config instanceId rest)"
  by (rule ext) (simp add: bnd_def split: prod.splits sum.splits)

lemma under_lock_drain_items: "under_lock (drain_items e config instanceId items)"
proof (induction items)
  case Nil
  have "drain_items e config instanceId [] = ret ()"
    by (rule ext) (simp add: ret_def)
  then show ?case
    by (simp only: under_lock_ret)
next
  case (Cons item rest)
  show ?case
    unfolding drain_items_Cons
    by (intro under_lock_bnd under_lock_process_item Cons.IH)
qed

lemma under_lock_drain_rest:
  "under_lock (if queue = [] then ret ()
               else bnd (db_get_meta e ''instance_uuid'') (\<lambda>instanceId.
                    drain_items e config instanceId queue))"
  unfolding db_get_meta_def
  by (intro under_lock_if under_lock_bnd under_lock_ret under_lock_db_call under_lock_drain_items)
    simp_all

lemma under_lock_db_get_queue: "under_lock (db_get_queue e)"
  unfolding db_get_queue_def by (rule under_lock_db_call) simp_all

lemma under_lock_drain_attempt: "under_lock (drain_attempt e config)"
  unfolding drain_attempt_def
  by (intro under_lock_bnd under_lock_db_get_queue under_lock_drain_rest)

text \<open>The drain starts with the read of the queue, whether the store fails or not.\<close>

lemma drain_attempt_first:
  assumes "isProcessingQueue w"
  shows "isProcessingQueue (snd (drain_attempt e config w)) \<and>
         (\<exists>evs. history (snd (drain_attempt e config w)) =
                  history w @ Db DbGet ''blacklist_request_queue'' # evs \<and>
                lock_trace (snd (drain_attempt e config w)) =
                  lock_trace w @ replicate (Suc (length evs)) True)"
proof -
  let ?w1 = "record_event (Db DbGet ''blacklist_request_queue'') w"
  have w1: "isProcessingQueue ?w1" "history ?w1 = history w @ [Db DbGet ''blacklist_request_queue'']"
    "lock_trace ?w1 = lock_trace w @ [True]"
    using assms by (simp_all add: record_event_def)
  show ?thesis
  proof (cases "db_fault e (history w)")
    case True
    then have "drain_attempt e config w = (Inl StoreError, ?w1)"
      by (simp add: drain_attempt_def bnd_def db_get_queue_def db_call_def)
    then show ?thesis
      using w1 by simp
  next
    case False
    let ?K = "if oldest_requests (blacklist_request_queue w) = [] then ret ()
              else bnd (db_get_meta e ''instance_uuid'') (\<lambda>instanceId.
                   drain_items e config instanceId (oldest_requests (blacklist_request_queue w)))"
    have q: "blacklist_request_queue ?w1 = blacklist_request_queue w"
      by (simp add: record_event_def)
    have run: "drain_attempt e config w = ?K ?w1"
      using False by (simp add: drain_attempt_def bnd_def db_get_queue_def db_call_def q)
    obtain r w2 where k: "?K ?w1 = (r, w2)"
      by (cases "?K ?w1")
    obtain evs where "isProcessingQueue w2" and "history w2 = history ?w1 @ evs"
      and "lock_trace w2 = lock_trace ?w1 @ replicate (length evs) True"
      using under_lock_drain_rest w1(1) k by (rule under_lockD)
    then show ?thesis
      unfolding run k using w1 by simp
  qed
qed

text \<open>
  C8. A call of \<open>processOfflineQueue\<close> that finds the lock set returns at once and
  leaves the world, and so the history of store calls and delivery attempts, exactly as
  it is. A call that finds the lock free always returns normally with the lock free
  again, whatever fails inside; it reads the queue first, and every interaction it
  issues, from that read to its last one, is issued with the lock set. So an invocation
  that arrives while this call waits for any of its store calls or delivery attempts
  finds the lock set and is such a no-op. The body of a drain never releases the lock
  itself.
\<close>

theorem drain_guard:
  "(isProcessingQueue w \<longrightarrow> processOfflineQueue e config w = (Inr (), w)) \<and>
   (\<not> isProcessingQueue w \<longrightarrow>
      fst (processOfflineQueue e config w) = Inr () \<and>
      \<not> isProcessingQueue (snd (processOfflineQueue e config w)) \<and>
      (\<exists>evs. history (snd (processOfflineQueue e config w)) =
               history w @ Db DbGet ''blacklist_request_queue'' # evs \<and>
             lock_trace (snd (processOfflineQueue e config w)) =
               lock_trace w @ replicate (Suc (length evs)) True)) \<and>
   (isProcessingQueue w \<longrightarrow> isProcessingQueue (snd (drain_attempt e config w)))"
proof (intro conjI impI)
  assume "isProcessingQueue w"
  then show "processOfflineQueue e config w = (Inr (), w)"
    by (simp add: processOfflineQueue_def)
next
  assume free: "\<not> isProcessingQueue w"
  let ?w1 = "w\<lparr>isProcessingQueue := True\<rparr>"
  obtain r w' where run: "drain_attempt e config ?w1 = (r, w')"
    by (cases "drain_attempt e config ?w1")
  have whole: "processOfflineQueue e config w = (Inr (), w'\<lparr>isProcessingQueue := False\<rparr>)"
    using free run by (cases r) (simp_all add: processOfflineQueue_def finally_do_def try_catch_def ret_def)
  show "fst (processOfflineQueue e config w) = Inr ()"
    by (simp add: whole)
  show "\<not> isProcessingQueue (snd (processOfflineQueue e config w))"
    by (simp add: whole)
  have "\<exists>evs. history (snd (drain_attempt e config ?w1)) =
                  history ?w1 @ Db DbGet ''blacklist_request_queue'' # evs \<and>
                lock_trace (snd (drain_attempt e config ?w1)) =
                  lock_trace ?w1 @ replicate (Suc (length evs)) True"
    using drain_attempt_first [of ?w1 e config] by simp
  then show "\<exists>evs. history (snd (processOfflineQueue e config w)) =
               history w @ Db DbGet ''blacklist_request_queue'' # evs \<and>
             lock_trace (snd (processOfflineQueue e config w)) =
               lock_trace w @ replicate (Suc (length evs)) True"
    by (simp add: whole run)
next
  assume "isProcessingQueue w"
  then show "isProcessingQueue (snd (drain_attempt e config w))"
    using drain_attempt_first [of w e config] by blast
qed

theorem drain_guard_witness:
  "isProcessingQueue draining_world \<and>
   processOfflineQueue accepting_env example_config draining_world = (Inr (), draining_world) \<and>
   \<not> isProcessingQueue waiting_world \<and>
   fst (processOfflineQueue accepting_env example_config waiting_world) = Inr () \<and>
   \<not> isProcessingQueue (snd (processOfflineQueue accepting_env example_config waiting_world)) \<and>
   history (snd (processOfflineQueue accepting_env example_config waiting_world)) =
     [Db DbGet ''blacklist_request_queue'', Db DbGet ''blacklist_meta'',
      HttpPost ''https://blacklist.example/applications''
        [(''request_id'', JStr ''req-1''), (''type'', JStr ''ADD''), (''isOfflineRetry'', JBool True)],
      Db DbRemove ''blacklist_request_queue''] \<and>
   lock_trace (snd (processOfflineQueue accepting_env example_config waiting_world)) =
     [True, True, True, True] \<and>
   blacklist_request_queue (snd (processOfflineQueue accepting_env example_config waiting_world)) = [] \<and>
   \<not> isProcessingQueue (snd (processOfflineQueue (quiet_env\<lparr>db_fault := \<lambda>h. True\<rparr>) example_config
        waiting_world)) \<and>
   history (snd (processOfflineQueue (quiet_env\<lparr>db_fault := \<lambda>h. True\<rparr>) example_config waiting_world)) =
     [Db DbGet ''blacklist_request_queue''] \<and>
   lock_trace (snd (processOfflineQueue (quiet_env\<lparr>db_fault := \<lambda>h. True\<rparr>) example_config waiting_world)) =
     [True]"
proof -
  let ?post = "HttpPost ''https://blacklist.example/applications''
        [(''request_id'', JStr ''req-1''), (''type'', JStr ''ADD''), (''isOfflineRetry'', JBool True)]"
  have locked: "isProcessingQueue draining_world"
    by (simp add: draining_world_def)
  have free: "\<not> isProcessingQueue waiting_world"
    and h0: "history waiting_world = []" and t0: "lock_trace waiting_world = []"
    by (simp_all add: waiting_world_def empty_world_def)
  have hist: "history (snd (processOfflineQueue accepting_env example_config waiting_world)) =
     [Db DbGet ''blacklist_request_queue'', Db DbGet ''blacklist_meta'', ?post,
      Db DbRemove ''blacklist_request_queue'']"
    and queue: "blacklist_request_queue (snd (processOfflineQueue accepting_env example_config waiting_world)) = []"
    by (simp_all add: processOfflineQueue_def finally_do_def try_catch_def drain_attempt_def bnd_def
        ret_def db_get_queue_def db_get_meta_def db_call_def record_event_def oldest_requests_def
        process_item_def post_application_def applications_url_def offline_body_def
        db_remove_request_def accepting_env_def quiet_env_def waiting_world_def empty_world_def
        pending_request_def example_config_def Let_def)
  have hist2: "history (snd (processOfflineQueue (quiet_env\<lparr>db_fault := \<lambda>h. True\<rparr>) example_config
                 waiting_world)) = [Db DbGet ''blacklist_request_queue'']"
    by (simp add: processOfflineQueue_def finally_do_def try_catch_def drain_attempt_def bnd_def
        ret_def db_get_queue_def db_call_def record_event_def waiting_world_def empty_world_def)
  note a = drain_guard [of draining_world accepting_env example_config]
  note b = drain_guard [of waiting_world accepting_env example_config]
  note c = drain_guard [of waiting_world "quiet_env\<lparr>db_fault := \<lambda>h. True\<rparr>" example_config]
  have b': "fst (processOfflineQueue accepting_env example_config waiting_world) = Inr () \<and>
      \<not> isProcessingQueue (snd (processOfflineQueue accepting_env example_config waiting_world)) \<and>
      lock_trace (snd (processOfflineQueue accepting_env example_config waiting_world)) =
        [True, True, True, True]"
    using b free unfolding hist h0 t0 by auto
  have c': "\<not> isProcessingQueue (snd (processOfflineQueue (quiet_env\<lparr>db_fault := \<lambda>h. True\<rparr>) example_config
        waiting_world)) \<and>
      lock_trace (snd (processOfflineQueue (quiet_env\<lparr>db_fault := \<lambda>h. True\<rparr>) example_config waiting_world)) =
        [True]"
    using c free unfolding hist2 h0 t0 by auto
  show ?thesis
    using locked a free b' hist queue c' hist2 by simp
qed

text \<open>
  C9, at the payload of the \<open>blacklist.request\<close> command: the payload carries
  \<open>request_id = req-1\<close>, yet \<open>queueRequest\<close> keys the stored row by a freshly drawn UUID,
  returns that UUID, and adds it to the payload as a second field \<open>requestId\<close>.
\<close>

theorem queueRequest_ignores_request_id:
  "fst (queueRequest quiet_env ADD (request_payload ''req-1'' ''42'' ''666'' ''spam'' ''g1'' 1700000000000)
          empty_world) = Inr (JStr ''7d444840-9dc0-11d1-b245-5ffdce74fad2'') \<and>
   blacklist_request_queue (snd (queueRequest quiet_env ADD
          (request_payload ''req-1'' ''42'' ''666'' ''spam'' ''g1'' 1700000000000) empty_world)) =
     [\<lparr>req_id = JStr ''7d444840-9dc0-11d1-b245-5ffdce74fad2'', req_type = ADD,
       req_payload = request_payload ''req-1'' ''42'' ''666'' ''spam'' ''g1'' 1700000000000 @
                     [(''requestId'', JStr ''7d444840-9dc0-11d1-b245-5ffdce74fad2'')],
       createdAt = 1700000000000, retryCount = 0\<rparr>] \<and>
   map_of (request_payload ''req-1'' ''42'' ''666'' ''spam'' ''g1'' 1700000000000) ''request_id'' =
     Some (JStr ''req-1'')"
  by (simp add: queueRequest_def Let_def request_payload_def quiet_env_def empty_world_def
      db_create_request_def bnd_def ret_def record_event_def)

text \<open>
  What \<open>queueRequest\<close> does keep: the id it returns is the key of the row it stores,
  the row starts with no retries, and a payload that has a truthy field \<open>requestId\<close>
  keeps that value as its id.
\<close>

lemma queueRequest_stores_returned_id:
  assumes "fst (queueRequest e ty payload w) = Inr rid"
  shows "\<exists>row. blacklist_request_queue (snd (queueRequest e ty payload w)) =
                 blacklist_request_queue w @ [row] \<and>
               req_id row = rid \<and> retryCount row = 0 \<and> req_type row = ty \<and>
               map_of (req_payload row) ''requestId'' = Some rid \<and>
               (\<forall>v. map_of payload ''requestId'' = Some v \<and> truthy v \<longrightarrow> rid = v)"
  using assms
  by (auto simp: queueRequest_def Let_def db_create_request_def bnd_def ret_def record_event_def
      update_conv' split: option.splits if_splits)

lemma db_remove_request_ok:
  "store_ok e \<Longrightarrow> db_remove_request e rid w =
     (Inr (), (record_event (Db DbRemove ''blacklist_request_queue'') w)
                \<lparr>blacklist_request_queue := filter (\<lambda>r. req_id r \<noteq> rid) (blacklist_request_queue w)\<rparr>)"
  by (simp add: db_remove_request_def db_call_ok record_event_def)

lemma db_set_retryCount_ok:
  "store_ok e \<Longrightarrow> db_set_retryCount e rid n w =
     (Inr (), (record_event (Db DbSet ''blacklist_request_queue'') w)
                \<lparr>blacklist_request_queue :=
                   map (\<lambda>r. if req_id r = rid then r\<lparr>retryCount := n\<rparr> else r) (blacklist_request_queue w)\<rparr>)"
  by (simp add: db_set_retryCount_def db_call_ok record_event_def)

text \<open>One iteration, case by case, when the store does not fail.\<close>

lemma process_item_dead_letter:
  assumes "store_ok e" and "retryCount item > 5"
  shows "process_item e config instanceId item w =
     (Inr (), (record_event (Db DbRemove ''blacklist_request_queue'') w)
                \<lparr>blacklist_request_queue := filter (\<lambda>r. req_id r \<noteq> req_id item) (blacklist_request_queue w)\<rparr>)"
  using assms by (simp add: process_item_def db_remove_request_ok)

lemma process_item_delivered:
  assumes "store_ok e" and "\<not> retryCount item > 5"
    and "http_post_applications e (history w) (applications_url config) (offline_body instanceId item) = None"
  shows "process_item e config instanceId item w =
     (Inr (), (record_event (Db DbRemove ''blacklist_request_queue'')
                (record_event (HttpPost (applications_url config) (offline_body instanceId item)) w))
                \<lparr>blacklist_request_queue := filter (\<lambda>r. req_id r \<noteq> req_id item) (blacklist_request_queue w)\<rparr>)"
  using assms
  by (simp add: process_item_def try_catch_def bnd_def post_application_def Let_def
      applications_url_def db_remove_request_ok record_event_def)

lemma process_item_network:
  assumes "\<not> retryCount item > 5"
    and "http_post_applications e (history w) (applications_url config) (offline_body instanceId item) = Some err"
    and "isNetworkError (RequestError err)"
  shows "process_item e config instanceId item w =
     (Inr (), record_event (HttpPost (applications_url config) (offline_body instanceId item)) w)"
  using assms
  by (simp add: process_item_def try_catch_def bnd_def post_application_def Let_def
      applications_url_def ret_def)

lemma process_item_business:
  assumes "store_ok e" and "\<not> retryCount item > 5"
    and "http_post_applications e (history w) (applications_url config) (offline_body instanceId item) = Some err"
    and "\<not> isNetworkError (RequestError err)"
  shows "process_item e config instanceId item w =
     (Inr (), (record_event (Db DbSet ''blacklist_request_queue'')
                (record_event (HttpPost (applications_url config) (offline_body instanceId item)) w))
                \<lparr>blacklist_request_queue :=
                   map (\<lambda>r. if req_id r = req_id item then r\<lparr>retryCount := retryCount item + 1\<rparr> else r)
                     (blacklist_request_queue w)\<rparr>)"
  using assms
  by (simp add: process_item_def try_catch_def bnd_def post_application_def Let_def
      applications_url_def db_set_retryCount_ok record_event_def)

lemma requests_with_id_filter_other:
  "k \<noteq> k' \<Longrightarrow> requests_with_id k (filter (\<lambda>r. req_id r \<noteq> k') q) = requests_with_id k q"
  by (induction q) (auto simp: requests_with_id_def)

lemma requests_with_id_filter_same:
  "requests_with_id k (filter (\<lambda>r. req_id r \<noteq> k) q) = []"
  by (induction q) (auto simp: requests_with_id_def)

lemma requests_with_id_map_other:
  "k \<noteq> k' \<Longrightarrow>
   requests_with_id k (map (\<lambda>r. if req_id r = k' then r\<lparr>retryCount := n\<rparr> else r) q) = requests_with_id k q"
  by (induction q) (auto simp: requests_with_id_def)

lemma requests_with_id_map_same:
  "requests_with_id k (map (\<lambda>r. if req_id r = k then r\<lparr>retryCount := n\<rparr> else r) q) =
   map (\<lambda>r. r\<lparr>retryCount := n\<rparr>) (requests_with_id k q)"
  by (induction q) (auto simp: requests_with_id_def)

lemma delivery_attempts_append [simp]:
  "delivery_attempts (h @ h') = delivery_attempts h @ delivery_attempts h'"
  by (simp add: delivery_attempts_def)

text \<open>
  The effect of one iteration, when the store does not fail: it returns, it attempts
  delivery exactly when the retry count is at most 5, and it touches only rows that
  carry the item's id.
\<close>

lemma process_item_step:
  assumes ok: "store_ok e"
  shows "\<exists>w'. process_item e config instanceId item w = (Inr (), w') \<and>
           delivery_attempts (history w') =
             delivery_attempts (history w) @
             (if retryCount item \<le> 5 then [HttpPost (applications_url config) (offline_body instanceId item)]
              else []) \<and>
           (\<forall>k. k \<noteq> req_id item \<longrightarrow>
              requests_with_id k (blacklist_request_queue w') = requests_with_id k (blacklist_request_queue w)) \<and>
           (\<forall>k. requests_with_id k (blacklist_request_queue w) = [] \<longrightarrow>
              requests_with_id k (blacklist_request_queue w') = []) \<and>
           (retryCount item > 5 \<longrightarrow> requests_with_id (req_id item) (blacklist_request_queue w') = [])"
proof (cases "retryCount item > 5")
  case True
  show ?thesis
    using True
    by (simp add: process_item_dead_letter [OF ok True] record_event_def delivery_attempts_def
        requests_with_id_filter_other requests_with_id_filter_same)
      (simp add: requests_with_id_def filter_empty_conv)
next
  case False
  show ?thesis
  proof (cases "http_post_applications e (history w) (applications_url config) (offline_body instanceId item)")
    case None
    show ?thesis
      using False
      by (simp add: process_item_delivered [OF ok False None] record_event_def delivery_attempts_def
          requests_with_id_filter_other)
        (simp add: requests_with_id_def filter_empty_conv)
  next
    case (Some err)
    show ?thesis
    proof (cases "isNetworkError (RequestError err)")
      case True
      show ?thesis
        using False
        by (simp add: process_item_network [OF False Some True] record_event_def delivery_attempts_def)
    next
      case business: False
      show ?thesis
        using False
        by (simp add: process_item_business [OF ok False Some business] record_event_def
            delivery_attempts_def requests_with_id_map_other)
          (auto simp: requests_with_id_def filter_empty_conv)
    qed
  qed
qed

lemma drain_items_step:
  "process_item e config instanceId item w = (Inr (), w') \<Longrightarrow>
   drain_items e config instanceId (item # rest) w = drain_items e config instanceId rest w'"
  by (simp only: drain_items.simps prod.case sum.case)

lemma drain_items_attempts:
  assumes ok: "store_ok e"
  shows "fst (drain_items e config instanceId items w) = Inr () \<and>
         delivery_attempts (history (snd (drain_items e config instanceId items w))) =
           delivery_attempts (history w) @
           map (\<lambda>i. HttpPost (applications_url config) (offline_body instanceId i))
             (filter (\<lambda>i. retryCount i \<le> 5) items)"
proof (induction items arbitrary: w)
  case Nil
  show ?case by (simp only: drain_items.simps fst_conv snd_conv filter.simps list.map append_Nil2 simp_thms)
next
  case (Cons item rest)
  obtain w' where step: "process_item e config instanceId item w = (Inr (), w')"
    and att: "delivery_attempts (history w') =
             delivery_attempts (history w) @
             (if retryCount item \<le> 5 then [HttpPost (applications_url config) (offline_body instanceId item)]
              else [])"
    using process_item_step [OF ok, of config instanceId item w] by blast
  show ?case
    unfolding drain_items_step [OF step]
    using Cons.IH [of w'] att by (cases "retryCount item \<le> 5") simp_all
qed

lemma drain_items_other_ids:
  assumes ok: "store_ok e" and "k \<notin> req_id ` set items"
  shows "requests_with_id k (blacklist_request_queue (snd (drain_items e config instanceId items w))) =
         requests_with_id k (blacklist_request_queue w)"
  using assms(2)
proof (induction items arbitrary: w)
  case Nil
  show ?case by (simp only: drain_items.simps snd_conv)
next
  case (Cons item rest)
  obtain w' where step: "process_item e config instanceId item w = (Inr (), w')"
    and other: "\<forall>k. k \<noteq> req_id item \<longrightarrow>
              requests_with_id k (blacklist_request_queue w') = requests_with_id k (blacklist_request_queue w)"
    using process_item_step [OF ok, of config instanceId item w] by blast
  have k: "k \<noteq> req_id item" and rest: "k \<notin> req_id ` set rest"
    using Cons.prems by auto
  have "requests_with_id k (blacklist_request_queue (snd (drain_items e config instanceId rest w'))) =
        requests_with_id k (blacklist_request_queue w')"
    using rest by (rule Cons.IH)
  then show ?case
    unfolding drain_items_step [OF step] using other k by simp
qed

lemma drain_items_stays_gone:
  assumes ok: "store_ok e" and "requests_with_id k (blacklist_request_queue w) = []"
  shows "requests_with_id k (blacklist_request_queue (snd (drain_items e config instanceId items w))) = []"
  using assms(2)
proof (induction items arbitrary: w)
  case Nil
  then show ?case by (simp only: drain_items.simps snd_conv)
next
  case (Cons item rest)
  obtain w' where step: "process_item e config instanceId item w = (Inr (), w')"
    and gone: "\<forall>k. requests_with_id k (blacklist_request_queue w) = [] \<longrightarrow>
              requests_with_id k (blacklist_request_queue w') = []"
    using process_item_step [OF ok, of config instanceId item w] by blast
  have "requests_with_id k (blacklist_request_queue w') = []"
    using gone Cons.prems by blast
  then show ?case
    unfolding drain_items_step [OF step] by (rule Cons.IH)
qed

lemma drain_items_evicts:
  assumes ok: "store_ok e" and "item \<in> set items" and "retryCount item > 5"
  shows "requests_with_id (req_id item) (blacklist_request_queue (snd (drain_items e config instanceId items w))) = []"
  using assms(2)
proof (induction items arbitrary: w)
  case Nil
  then show ?case by simp
next
  case (Cons x rest)
  obtain w' where step: "process_item e config instanceId x w = (Inr (), w')"
    and other: "\<forall>k. k \<noteq> req_id x \<longrightarrow>
              requests_with_id k (blacklist_request_queue w') = requests_with_id k (blacklist_request_queue w)"
    and evict: "retryCount x > 5 \<longrightarrow> requests_with_id (req_id x) (blacklist_request_queue w') = []"
    using process_item_step [OF ok, of config instanceId x w] by blast
  show ?case
  proof (cases "x = item")
    case True
    have "requests_with_id (req_id item) (blacklist_request_queue w') = []"
      using evict True assms(3) by simp
    then show ?thesis
      unfolding drain_items_step [OF step] by (rule drain_items_stays_gone [OF ok])
  next
    case False
    then have "item \<in> set rest" using Cons.prems by simp
    then show ?thesis
      unfolding drain_items_step [OF step] by (rule Cons.IH)
  qed
qed

lemma drain_items_failed_delivery:
  assumes ok: "store_ok e" and le: "retryCount item \<le> 5"
    and fails: "delivery_fails e config (offline_body instanceId item) err"
    and "distinct (map req_id items)" and "item \<in> set items"
  shows "requests_with_id (req_id item) (blacklist_request_queue (snd (drain_items e config instanceId items w))) =
         (if isNetworkError (RequestError err) then requests_with_id (req_id item) (blacklist_request_queue w)
          else map (\<lambda>r. r\<lparr>retryCount := retryCount item + 1\<rparr>)
                 (requests_with_id (req_id item) (blacklist_request_queue w)))"
  using assms(4,5)
proof (induction items arbitrary: w)
  case Nil
  then show ?case by simp
next
  case (Cons x rest)
  show ?case
  proof (cases "x = item")
    case True
    have le': "\<not> retryCount item > 5" using le by simp
    have post: "http_post_applications e (history w) (applications_url config) (offline_body instanceId item) = Some err"
      using fails by (simp add: delivery_fails_def)
    have later: "req_id item \<notin> req_id ` set rest"
      using Cons.prems(1) True by simp
    show ?thesis
    proof (cases "isNetworkError (RequestError err)")
      case network: True
      let ?w' = "record_event (HttpPost (applications_url config) (offline_body instanceId item)) w"
      have step: "process_item e config instanceId x w = (Inr (), ?w')"
        unfolding True by (rule process_item_network [OF le' post network])
      have "requests_with_id (req_id item) (blacklist_request_queue (snd (drain_items e config instanceId rest ?w'))) =
            requests_with_id (req_id item) (blacklist_request_queue ?w')"
        by (rule drain_items_other_ids [OF ok later])
      then show ?thesis
        unfolding drain_items_step [OF step] using network by (simp add: record_event_def)
    next
      case business: False
      let ?w' = "(record_event (Db DbSet ''blacklist_request_queue'')
                (record_event (HttpPost (applications_url config) (offline_body instanceId item)) w))
                \<lparr>blacklist_request_queue :=
                   map (\<lambda>r. if req_id r = req_id item then r\<lparr>retryCount := retryCount item + 1\<rparr> else r)
                     (blacklist_request_queue w)\<rparr>"
      have step: "process_item e config instanceId x w = (Inr (), ?w')"
        unfolding True by (rule process_item_business [OF ok le' post business])
      have "requests_with_id (req_id item) (blacklist_request_queue (snd (drain_items e config instanceId rest ?w'))) =
            requests_with_id (req_id item) (blacklist_request_queue ?w')"
        by (rule drain_items_other_ids [OF ok later])
      then show ?thesis
        unfolding drain_items_step [OF step] using business
        by (simp add: record_event_def requests_with_id_map_same)
    qed
  next
    case False
    then have mem: "item \<in> set rest" and dist: "distinct (map req_id rest)"
      using Cons.prems by simp_all
    have ne: "req_id item \<noteq> req_id x"
      using Cons.prems(1) mem by (fastforce simp: image_iff)
    obtain w' where step: "process_item e config instanceId x w = (Inr (), w')"
      and other: "\<forall>k. k \<noteq> req_id x \<longrightarrow>
              requests_with_id k (blacklist_request_queue w') = requests_with_id k (blacklist_request_queue w)"
      using process_item_step [OF ok, of config instanceId x w] by blast
    have same: "requests_with_id (req_id item) (blacklist_request_queue w') =
                requests_with_id (req_id item) (blacklist_request_queue w)"
      using other ne by blast
    show ?thesis
      unfolding drain_items_step [OF step] using Cons.IH [OF dist mem, of w'] same by simp
  qed
qed

text \<open>
  A drain that finds the lock free, with a store that does not fail: it fetches the ten
  oldest requests, reads the instance id, runs the loop over the fetched requests and
  releases the lock.
\<close>

lemma processOfflineQueue_run:
  assumes ok: "store_ok e" and free: "\<not> isProcessingQueue w"
  shows "\<exists>w1. blacklist_request_queue w1 = blacklist_request_queue w \<and>
              delivery_attempts (history w1) = delivery_attempts (history w) \<and>
              processOfflineQueue e config w =
                (Inr (), (snd (drain_items e config (blacklist_meta w ''instance_uuid'')
                                 (oldest_requests (blacklist_request_queue w)) w1))
                           \<lparr>isProcessingQueue := False\<rparr>)"
proof (cases "oldest_requests (blacklist_request_queue w) = []")
  case True
  let ?w1 = "record_event (Db DbGet ''blacklist_request_queue'') (w\<lparr>isProcessingQueue := True\<rparr>)"
  have "processOfflineQueue e config w = (Inr (), ?w1\<lparr>isProcessingQueue := False\<rparr>)"
    using free True
    by (simp add: processOfflineQueue_def finally_do_def try_catch_def drain_attempt_def bnd_def
        db_get_queue_def db_call_ok [OF ok] ret_def record_event_def)
  then show ?thesis
    using True by (intro exI [of _ ?w1]) (simp add: record_event_def delivery_attempts_def)
next
  case False
  let ?w1 = "record_event (Db DbGet ''blacklist_meta'')
               (record_event (Db DbGet ''blacklist_request_queue'') (w\<lparr>isProcessingQueue := True\<rparr>))"
  let ?run = "drain_items e config (blacklist_meta w ''instance_uuid'')
                (oldest_requests (blacklist_request_queue w)) ?w1"
  have r: "fst ?run = Inr ()"
    using drain_items_attempts [OF ok] by blast
  have "drain_attempt e config (w\<lparr>isProcessingQueue := True\<rparr>) = ?run"
    using False
    by (simp add: drain_attempt_def bnd_def db_get_queue_def db_get_meta_def db_call_ok [OF ok]
        record_event_def)
  then have "processOfflineQueue e config w = (Inr (), (snd ?run)\<lparr>isProcessingQueue := False\<rparr>)"
    using free r
    by (cases ?run) (simp add: processOfflineQueue_def finally_do_def try_catch_def)
  then show ?thesis
    by (intro exI [of _ ?w1]) (simp add: record_event_def delivery_attempts_def)
qed

lemma distinct_oldest_requests:
  "distinct (map req_id q) \<Longrightarrow> distinct (map req_id (oldest_requests q))"
proof -
  assume d: "distinct (map req_id q)"
  have "distinct (map req_id (sort_key createdAt q))"
    using d by (metis distinct_map distinct_sort set_sort inj_on_cong)
  then show ?thesis
    unfolding oldest_requests_def by (simp add: distinct_map distinct_take take_map [symmetric])
qed

lemma oldest_requests_subset: "item \<in> set (oldest_requests q) \<Longrightarrow> item \<in> set q"
  unfolding oldest_requests_def by (auto dest: in_set_takeD)

lemma requests_with_id_distinct:
  "distinct (map req_id q) \<Longrightarrow> item \<in> set q \<Longrightarrow> requests_with_id (req_id item) q = [item]"
proof (induction q)
  case Nil
  then show ?case by simp
next
  case (Cons x q)
  show ?case
  proof (cases "x = item")
    case True
    have "\<forall>r \<in> set q. req_id r \<noteq> req_id item"
      using Cons.prems(1) True by (fastforce simp: image_iff)
    then have "filter (\<lambda>r. req_id r = req_id item) q = []"
      by (simp add: filter_empty_conv)
    then show ?thesis using True by (simp add: requests_with_id_def)
  next
    case False
    then have "item \<in> set q" using Cons.prems by simp
    moreover have "req_id x \<noteq> req_id item"
      using Cons.prems(1) \<open>item \<in> set q\<close> by (fastforce simp: image_iff)
    ultimately show ?thesis
      using Cons by (simp add: requests_with_id_def)
  qed
qed

lemma drain_keeps_unfetched:
  assumes ok: "store_ok e" and free: "\<not> isProcessingQueue w"
    and k: "k \<notin> req_id ` set (oldest_requests (blacklist_request_queue w))"
  shows "requests_with_id k (blacklist_request_queue (snd (processOfflineQueue e config w))) =
         requests_with_id k (blacklist_request_queue w)"
proof -
  obtain w1 where q1: "blacklist_request_queue w1 = blacklist_request_queue w"
    and run: "processOfflineQueue e config w =
                (Inr (), (snd (drain_items e config (blacklist_meta w ''instance_uuid'')
                                 (oldest_requests (blacklist_request_queue w)) w1))
                           \<lparr>isProcessingQueue := False\<rparr>)"
    using processOfflineQueue_run [OF ok free, of config] by blast
  show ?thesis
    unfolding run using drain_items_other_ids [OF ok k, of config "blacklist_meta w ''instance_uuid''" w1] q1
    by simp
qed

text \<open>
  C4. In a drain (lock free, store not failing, request ids unique), take a fetched
  request with at most 5 retries whose delivery the remote authority fails with \<open>err\<close>.
  The code classifies \<open>err\<close> as a network failure when its code is \<open>ECONNABORTED\<close> or
  \<open>ENOTFOUND\<close> or no response came with it, and as a business failure otherwise. After
  the drain the queue holds, under the request's id, exactly the request as it was
  (network failure) or exactly the request with its retry count one higher (business
  failure).
\<close>

theorem drain_failed_delivery:
  assumes "store_ok e" and "\<not> isProcessingQueue w"
    and "distinct (map req_id (blacklist_request_queue w))"
    and "item \<in> set (oldest_requests (blacklist_request_queue w))"
    and "retryCount item \<le> 5"
    and "delivery_fails e config (offline_body (blacklist_meta w ''instance_uuid'') item) err"
  shows "isNetworkError (RequestError err) =
           (err_code err = Some ''ECONNABORTED'' \<or> err_code err = Some ''ENOTFOUND'' \<or> \<not> err_response err) \<and>
         (isNetworkError (RequestError err) \<longrightarrow>
            requests_with_id (req_id item)
              (blacklist_request_queue (snd (processOfflineQueue e config w))) = [item]) \<and>
         (\<not> isNetworkError (RequestError err) \<longrightarrow>
            requests_with_id (req_id item)
              (blacklist_request_queue (snd (processOfflineQueue e config w))) =
            [item\<lparr>retryCount := retryCount item + 1\<rparr>])"
proof -
  obtain w1 where q1: "blacklist_request_queue w1 = blacklist_request_queue w"
    and run: "processOfflineQueue e config w =
                (Inr (), (snd (drain_items e config (blacklist_meta w ''instance_uuid'')
                                 (oldest_requests (blacklist_request_queue w)) w1))
                           \<lparr>isProcessingQueue := False\<rparr>)"
    using processOfflineQueue_run [OF assms(1,2), of config] by blast
  have before: "requests_with_id (req_id item) (blacklist_request_queue w1) = [item]"
    unfolding q1
    using assms(3) oldest_requests_subset [OF assms(4)] by (rule requests_with_id_distinct)
  have loop: "requests_with_id (req_id item)
                (blacklist_request_queue (snd (drain_items e config (blacklist_meta w ''instance_uuid'')
                   (oldest_requests (blacklist_request_queue w)) w1))) =
              (if isNetworkError (RequestError err) then [item]
               else [item\<lparr>retryCount := retryCount item + 1\<rparr>])"
    using drain_items_failed_delivery [OF assms(1) assms(5) assms(6)
        distinct_oldest_requests [OF assms(3)] assms(4), of w1] before
    by simp
  show ?thesis
    unfolding run using loop by (simp add: isNetworkError_def)
qed

theorem drain_failed_delivery_witness:
  "requests_with_id (JStr ''q1'')
     (blacklist_request_queue (snd (processOfflineQueue picky_env example_config queued_world))) =
     [pending_request] \<and>
   requests_with_id (JStr ''q2'')
     (blacklist_request_queue (snd (processOfflineQueue picky_env example_config queued_world))) =
     [second_request\<lparr>retryCount := 6\<rparr>]"
proof -
  have ok: "store_ok picky_env"
    by (simp add: store_ok_def picky_env_def quiet_env_def)
  have free: "\<not> isProcessingQueue queued_world"
    by (simp add: queued_world_def empty_world_def)
  have dist: "distinct (map req_id (blacklist_request_queue queued_world))"
    by (simp add: queued_world_def pending_request_def second_request_def)
  have fetched: "oldest_requests (blacklist_request_queue queued_world) = [pending_request, second_request]"
    by (simp add: oldest_requests_def queued_world_def pending_request_def second_request_def)
  have m1: "pending_request \<in> set (oldest_requests (blacklist_request_queue queued_world))"
    and m2: "second_request \<in> set (oldest_requests (blacklist_request_queue queued_world))"
    by (simp_all add: fetched)
  have r1: "retryCount pending_request \<le> 5" and r2: "retryCount second_request \<le> 5"
    by (simp_all add: pending_request_def second_request_def)
  have f1: "delivery_fails picky_env example_config
              (offline_body (blacklist_meta queued_world ''instance_uuid'') pending_request) timeout_error"
    by (simp add: delivery_fails_def picky_env_def offline_body_def queued_world_def empty_world_def
        pending_request_def)
  have f2: "delivery_fails picky_env example_config
              (offline_body (blacklist_meta queued_world ''instance_uuid'') second_request) rejection_error"
    by (simp add: delivery_fails_def picky_env_def offline_body_def queued_world_def empty_world_def
        second_request_def)
  have n1: "isNetworkError (RequestError timeout_error)"
    and n2: "\<not> isNetworkError (RequestError rejection_error)"
    by (simp_all add: isNetworkError_def timeout_error_def rejection_error_def)
  have i1: "req_id pending_request = JStr ''q1''" and i2: "req_id second_request = JStr ''q2''"
    and c2: "retryCount second_request + 1 = 6"
    by (simp_all add: pending_request_def second_request_def)
  show ?thesis
    using drain_failed_delivery [OF ok free dist m1 r1 f1] drain_failed_delivery [OF ok free dist m2 r2 f2]
      n1 n2
    unfolding i1 i2 c2 by blast
qed

text \<open>
  C5, as the code has it. In a drain (lock free, store not failing) delivery is attempted
  for exactly the fetched requests whose retry count is at most 5, in the order fetched;
  every fetched request with a retry count above 5 is gone from the queue afterwards; and
  a request that is not among the (at most ten) oldest fetched is left as it is, whatever
  its retry count.
\<close>

theorem drain_dead_letter:
  assumes "store_ok e" and "\<not> isProcessingQueue w"
  shows "delivery_attempts (history (snd (processOfflineQueue e config w))) =
           delivery_attempts (history w) @
           map (\<lambda>i. HttpPost (applications_url config) (offline_body (blacklist_meta w ''instance_uuid'') i))
             (filter (\<lambda>i. retryCount i \<le> 5) (oldest_requests (blacklist_request_queue w))) \<and>
         (\<forall>item \<in> set (oldest_requests (blacklist_request_queue w)).
            retryCount item > 5 \<longrightarrow>
            requests_with_id (req_id item)
              (blacklist_request_queue (snd (processOfflineQueue e config w))) = []) \<and>
         (\<forall>k. k \<notin> req_id ` set (oldest_requests (blacklist_request_queue w)) \<longrightarrow>
            requests_with_id k (blacklist_request_queue (snd (processOfflineQueue e config w))) =
            requests_with_id k (blacklist_request_queue w))"
proof -
  obtain w1 where q1: "blacklist_request_queue w1 = blacklist_request_queue w"
    and a1: "delivery_attempts (history w1) = delivery_attempts (history w)"
    and run: "processOfflineQueue e config w =
                (Inr (), (snd (drain_items e config (blacklist_meta w ''instance_uuid'')
                                 (oldest_requests (blacklist_request_queue w)) w1))
                           \<lparr>isProcessingQueue := False\<rparr>)"
    using processOfflineQueue_run [OF assms, of config] by blast
  have attempts: "delivery_attempts (history (snd (processOfflineQueue e config w))) =
           delivery_attempts (history w) @
           map (\<lambda>i. HttpPost (applications_url config) (offline_body (blacklist_meta w ''instance_uuid'') i))
             (filter (\<lambda>i. retryCount i \<le> 5) (oldest_requests (blacklist_request_queue w)))"
    unfolding run
    using drain_items_attempts [OF assms(1), of config "blacklist_meta w ''instance_uuid''"
        "oldest_requests (blacklist_request_queue w)" w1] a1
    by simp
  have evicted: "\<forall>item \<in> set (oldest_requests (blacklist_request_queue w)).
            retryCount item > 5 \<longrightarrow>
            requests_with_id (req_id item)
              (blacklist_request_queue (snd (processOfflineQueue e config w))) = []"
    unfolding run using drain_items_evicts [OF assms(1)] by simp
  have unfetched: "\<forall>k. k \<notin> req_id ` set (oldest_requests (blacklist_request_queue w)) \<longrightarrow>
            requests_with_id k (blacklist_request_queue (snd (processOfflineQueue e config w))) =
            requests_with_id k (blacklist_request_queue w)"
    using drain_keeps_unfetched [OF assms] by blast
  show ?thesis
    using attempts evicted unfetched by blast
qed

theorem drain_dead_letter_witness:
  "delivery_attempts (history (snd (processOfflineQueue picky_env example_config mixed_world))) =
     [HttpPost ''https://blacklist.example/applications''
        [(''request_id'', JStr ''req-2''), (''type'', JStr ''REMOVE''), (''isOfflineRetry'', JBool True)]] \<and>
   requests_with_id (JNum 1)
     (blacklist_request_queue (snd (processOfflineQueue picky_env example_config mixed_world))) = [] \<and>
   retryCount (dead_letter 1) = 6 \<and> retryCount second_request = 5"
proof -
  have ok: "store_ok picky_env"
    by (simp add: store_ok_def picky_env_def quiet_env_def)
  have free: "\<not> isProcessingQueue mixed_world"
    by (simp add: mixed_world_def empty_world_def)
  have fetched: "oldest_requests (blacklist_request_queue mixed_world) = [dead_letter 1, second_request]"
    by (simp add: oldest_requests_def mixed_world_def dead_letter_def second_request_def)
  have posts: "map (\<lambda>i. HttpPost (applications_url example_config)
                        (offline_body (blacklist_meta mixed_world ''instance_uuid'') i))
                 (filter (\<lambda>i. retryCount i \<le> 5) [dead_letter 1, second_request]) =
               [HttpPost ''https://blacklist.example/applications''
                  [(''request_id'', JStr ''req-2''), (''type'', JStr ''REMOVE''), (''isOfflineRetry'', JBool True)]]"
    by (simp add: dead_letter_def second_request_def applications_url_def example_config_def
        offline_body_def mixed_world_def empty_world_def)
  have start: "delivery_attempts (history mixed_world) = []"
    by (simp add: mixed_world_def empty_world_def delivery_attempts_def)
  have counts: "retryCount (dead_letter 1) = 6 \<and> retryCount second_request = 5"
    and id1: "req_id (dead_letter 1) = JNum 1"
    by (simp_all add: dead_letter_def second_request_def)
  show ?thesis
    using drain_dead_letter [OF ok free, of example_config] counts
    unfolding fetched posts start by (simp add: id1)
qed

theorem drain_dead_letter_counterexample:
  "\<not> isProcessingQueue backlog_world \<and>
   dead_letter 11 \<in> set (blacklist_request_queue backlog_world) \<and>
   retryCount (dead_letter 11) = 6 \<and>
   dead_letter 11 \<in> set (blacklist_request_queue (snd (processOfflineQueue quiet_env example_config backlog_world)))"
proof -
  have ok: "store_ok quiet_env"
    by (simp add: store_ok_def quiet_env_def)
  have free: "\<not> isProcessingQueue backlog_world"
    by (simp add: backlog_world_def empty_world_def)
  have fetched: "oldest_requests (blacklist_request_queue backlog_world) =
                   map dead_letter [1, 2, 3, 4, 5, 6, 7, 8, 9, 10]"
    by (simp add: oldest_requests_def backlog_world_def dead_letter_def)
  have unfetched: "JNum 11 \<notin> req_id ` set (oldest_requests (blacklist_request_queue backlog_world))"
    unfolding fetched by (simp add: dead_letter_def)
  have before: "requests_with_id (JNum 11) (blacklist_request_queue backlog_world) = [dead_letter 11]"
    by (simp add: requests_with_id_def backlog_world_def dead_letter_def)
  have "requests_with_id (JNum 11)
          (blacklist_request_queue (snd (processOfflineQueue quiet_env example_config backlog_world))) =
        [dead_letter 11]"
    using drain_keeps_unfetched [OF ok free unfetched, of example_config] before by simp
  then have "dead_letter 11 \<in> set (filter (\<lambda>r. req_id r = JNum 11) (blacklist_request_queue
                       (snd (processOfflineQueue quiet_env example_config backlog_world))))"
    unfolding requests_with_id_def by simp
  then have after: "dead_letter 11 \<in> set (blacklist_request_queue
                       (snd (processOfflineQueue quiet_env example_config backlog_world)))"
    by simp
  have mem: "dead_letter 11 \<in> set (blacklist_request_queue backlog_world)"
    by (simp add: backlog_world_def)
  have cnt: "retryCount (dead_letter 11) = 6"
    by (simp add: dead_letter_def)
  show ?thesis
    using free mem cnt after by blast
qed

section \<open>The decision engine\<close>

declare kick_loop.simps [simp del]

lemma bnd_fails: "m w = (Inl err, w') \<Longrightarrow> bnd m f w = (Inl err, w')"
  by (simp add: bnd_def)

text \<open>
  C1. For an identity in the configured protected set, or with a row in the exempt
  table, \<open>checkAndHandleUser\<close> issues nothing but (at most) its first two store reads:
  no message is sent, no removal is attempted, no member is looked up. It never returns
  true, and it returns false whenever the store does not fail. This holds for every
  world, so also when an active block entry exists and no admin role applies.
\<close>

theorem protected_or_exempt_untouched:
  assumes "user_id \<in> set (array_or_empty (protectedUsers config)) \<or> blacklist_whitelist w user_id \<noteq> None"
  shows "fst (checkAndHandleUser e config session user_id w) \<noteq> Inr True \<and>
         (store_ok e \<longrightarrow> fst (checkAndHandleUser e config session user_id w) = Inr False) \<and>
         (history (snd (checkAndHandleUser e config session user_id w)) = history w \<or>
          history (snd (checkAndHandleUser e config session user_id w)) =
            history w @ [Db DbGet ''blacklist_guild_settings''] \<or>
          history (snd (checkAndHandleUser e config session user_id w)) =
            history w @ [Db DbGet ''blacklist_guild_settings'', Db DbGet ''blacklist_whitelist''])"
proof (cases "guild_of session")
  case None
  then show ?thesis by (simp add: checkAndHandleUser_def ret_def)
next
  case (Some g)
  let ?w1 = "record_event (Db DbGet ''blacklist_guild_settings'') w"
  show ?thesis
  proof (cases "db_fault e (history w)")
    case True
    then show ?thesis
      by (simp add: checkAndHandleUser_def Some bnd_def db_get_guild_settings_def db_call_def
          record_event_def store_ok_def)
         blast
  next
    case settings_read: False
    have first: "db_get_guild_settings e g w = (Inr (blacklist_guild_settings w g), ?w1)"
      using settings_read by (simp add: db_get_guild_settings_def db_call_def record_event_def)
    show ?thesis
    proof (cases "effective_mode config w g = Off \<or> user_id \<in> set (array_or_empty (protectedUsers config))")
      case True
      then have "checkAndHandleUser e config session user_id w = (Inr False, ?w1)"
        by (auto simp: checkAndHandleUser_def Some bnd_eq [of "db_get_guild_settings e g" w, OF first]
            Let_def ret_def effective_mode_def)
      then show ?thesis by (simp add: record_event_def)
    next
      case enforced: False
      then have exempt: "blacklist_whitelist w user_id \<noteq> None"
        using assms by blast
      let ?w2 = "record_event (Db DbGet ''blacklist_whitelist'') ?w1"
      show ?thesis
      proof (cases "db_fault e (history ?w1)")
        case True
        then have second: "db_get_whitelist e user_id ?w1 = (Inl StoreError, ?w2)"
          by (simp add: db_get_whitelist_def db_call_def)
        have "checkAndHandleUser e config session user_id w = (Inl StoreError, ?w2)"
          using enforced
          by (simp add: checkAndHandleUser_def Some bnd_eq [of "db_get_guild_settings e g" w, OF first]
            Let_def effective_mode_def
            bnd_fails [of "db_get_whitelist e user_id" ?w1, OF second])
        then show ?thesis
          using True by (auto simp: record_event_def store_ok_def)
      next
        case False
        then have second: "db_get_whitelist e user_id ?w1 = (Inr (blacklist_whitelist w user_id), ?w2)"
          by (simp add: db_get_whitelist_def db_call_def record_event_def)
        have "checkAndHandleUser e config session user_id w = (Inr False, ?w2)"
          using enforced exempt
          by (simp add: checkAndHandleUser_def Some bnd_eq [of "db_get_guild_settings e g" w, OF first]
            Let_def effective_mode_def ret_def
            bnd_eq [of "db_get_whitelist e user_id" ?w1, OF second])
        then show ?thesis
          by (simp add: record_event_def)
      qed
    qed
  qed
qed

theorem protected_or_exempt_untouched_witness:
  "blacklist_whitelist exempt_world ''666'' \<noteq> None \<and>
   blacklist_users exempt_world ''666'' = Some blocked_entry \<and>
   effective_mode example_config exempt_world ''g1'' = Both \<and>
   fst (checkAndHandleUser stubborn_env example_config group_session ''666'' exempt_world) = Inr False \<and>
   history (snd (checkAndHandleUser stubborn_env example_config group_session ''666'' exempt_world)) =
     [Db DbGet ''blacklist_guild_settings'', Db DbGet ''blacklist_whitelist''] \<and>
   ''10001'' \<in> set (array_or_empty (protectedUsers example_config)) \<and>
   fst (checkAndHandleUser stubborn_env example_config group_session ''10001'' exempt_world) = Inr False"
proof -
  have ok: "store_ok stubborn_env"
    by (simp add: store_ok_def stubborn_env_def quiet_env_def)
  have exempt: "blacklist_whitelist exempt_world ''666'' \<noteq> None"
    and blocked: "blacklist_users exempt_world ''666'' = Some blocked_entry"
    and mode: "effective_mode example_config exempt_world ''g1'' = Both"
    by (simp_all add: exempt_world_def empty_world_def effective_mode_def)
  have protected: "''10001'' \<in> set (array_or_empty (protectedUsers example_config))"
    by (simp add: example_config_def array_or_empty_def)
  have h0: "history exempt_world = []"
    by (simp add: exempt_world_def empty_world_def)
  have run: "history (snd (checkAndHandleUser stubborn_env example_config group_session ''666'' exempt_world)) =
     [Db DbGet ''blacklist_guild_settings'', Db DbGet ''blacklist_whitelist'']"
    by (simp add: checkAndHandleUser_def guild_of_def group_session_def bnd_def
        db_get_guild_settings_def db_get_whitelist_def db_call_ok [OF ok] record_event_def
        exempt_world_def empty_world_def example_config_def array_or_empty_def ret_def)
  show ?thesis
    using protected_or_exempt_untouched
            [of "''666''" example_config exempt_world stubborn_env group_session]
          protected_or_exempt_untouched
            [of "''10001''" example_config exempt_world stubborn_env group_session]
          ok exempt blocked mode protected run
    by blast
qed

text \<open>Computations that make no removal attempt.\<close>

lemma removal_attempts_append [simp]:
  "removal_attempts (xs @ ys) = removal_attempts xs @ removal_attempts ys"
  by (simp add: removal_attempts_def)

lemma removal_attempts_Nil [simp]: "removal_attempts [] = []"
  by (simp add: removal_attempts_def)

lemma quietI:
  assumes "\<And>w. \<exists>evs. history (snd (m w)) = history w @ evs \<and> removal_attempts evs = []"
  shows "quiet m"
  using assms by (simp add: quiet_def)

lemma quietD:
  assumes "quiet m" and "m w = (r, w')"
  obtains evs where "history w' = history w @ evs" and "removal_attempts evs = []"
  using assms by (fastforce simp: quiet_def dest: spec [of _ w])

lemma quiet_ret: "quiet (ret x)"
  by (simp add: quiet_def ret_def)

lemma quiet_throw: "quiet (throw err)"
  by (simp add: quiet_def throw_def)

lemma quiet_bnd:
  assumes "quiet m" and "\<And>x. quiet (f x)"
  shows "quiet (bnd m f)"
proof (rule quietI)
  fix w
  obtain r w' where mw: "m w = (r, w')"
    by (cases "m w")
  obtain evs where e1: "history w' = history w @ evs" "removal_attempts evs = []"
    using assms(1) mw by (rule quietD)
  show "\<exists>evs. history (snd (bnd m f w)) = history w @ evs \<and> removal_attempts evs = []"
  proof (cases r)
    case (Inl err)
    then show ?thesis using mw e1 by (simp add: bnd_def)
  next
    case (Inr x)
    obtain r2 w2 where fw: "f x w' = (r2, w2)"
      by (cases "f x w'")
    obtain evs2 where e2: "history w2 = history w' @ evs2" "removal_attempts evs2 = []"
      using assms(2) [of x] fw by (rule quietD)
    have "history w2 = history w @ (evs @ evs2) \<and> removal_attempts (evs @ evs2) = []"
      using e1 e2 by simp
    then show ?thesis
      using mw Inr fw by (auto simp: bnd_def)
  qed
qed

lemma quiet_try_catch:
  assumes "quiet m" and "\<And>err. quiet (h err)"
  shows "quiet (try_catch m h)"
proof (rule quietI)
  fix w
  obtain r w' where mw: "m w = (r, w')"
    by (cases "m w")
  obtain evs where e1: "history w' = history w @ evs" "removal_attempts evs = []"
    using assms(1) mw by (rule quietD)
  show "\<exists>evs. history (snd (try_catch m h w)) = history w @ evs \<and> removal_attempts evs = []"
  proof (cases r)
    case (Inr x)
    then show ?thesis using mw e1 by (simp add: try_catch_def)
  next
    case (Inl err)
    obtain r2 w2 where hw: "h err w' = (r2, w2)"
      by (cases "h err w'")
    obtain evs2 where e2: "history w2 = history w' @ evs2" "removal_attempts evs2 = []"
      using assms(2) [of err] hw by (rule quietD)
    have "history w2 = history w @ (evs @ evs2) \<and> removal_attempts (evs @ evs2) = []"
      using e1 e2 by simp
    then show ?thesis
      using mw Inl hw by (auto simp: try_catch_def)
  qed
qed

lemma quiet_if: "quiet m \<Longrightarrow> quiet n \<Longrightarrow> quiet (if c then m else n)"
  by simp

lemma quiet_db_call:
  assumes "\<And>w. history (snd (f w)) = history w"
  shows "quiet (db_call e op tbl f)"
proof (rule quietI)
  fix w
  have "history (snd (f (record_event (Db op tbl) w))) = history w @ [Db op tbl]"
    using assms [of "record_event (Db op tbl) w"] by (simp add: record_event_def)
  then have "history (snd (db_call e op tbl f w)) = history w @ [Db op tbl]"
    by (auto simp: db_call_def record_event_def split: prod.splits)
  then show "\<exists>evs. history (snd (db_call e op tbl f w)) = history w @ evs \<and> removal_attempts evs = []"
    by (intro exI [of _ "[Db op tbl]"]) (simp add: removal_attempts_def)
qed

lemma quiet_call_getGuildMember: "quiet (call_getGuildMember e g u)"
proof (rule quietI)
  fix w
  have "history (snd (call_getGuildMember e g u w)) = history w @ [GetGuildMember g u]"
    by (simp add: call_getGuildMember_def record_event_def split: member_reply.splits)
  then show "\<exists>evs. history (snd (call_getGuildMember e g u w)) = history w @ evs \<and> removal_attempts evs = []"
    by (intro exI [of _ "[GetGuildMember g u]"]) (simp add: removal_attempts_def)
qed

lemma quiet_call_send: "quiet (call_send e quote msg)"
proof (rule quietI)
  fix w
  have "history (snd (call_send e quote msg w)) = history w @ [Send quote msg]"
    by (simp add: call_send_def record_event_def)
  then show "\<exists>evs. history (snd (call_send e quote msg w)) = history w @ evs \<and> removal_attempts evs = []"
    by (intro exI [of _ "[Send quote msg]"]) (simp add: removal_attempts_def)
qed

lemma quiet_sleep: "quiet (sleep ms)"
proof (rule quietI)
  fix w
  have "history (snd (sleep ms w)) = history w @ [Sleep ms]"
    by (simp add: sleep_def record_event_def)
  then show "\<exists>evs. history (snd (sleep ms w)) = history w @ evs \<and> removal_attempts evs = []"
    by (intro exI [of _ "[Sleep ms]"]) (simp add: removal_attempts_def)
qed

lemma quiet_isUserAdmin: "quiet (isUserAdmin e session config userId)"
proof (cases "guild_of session")
  case None
  then show ?thesis by (simp add: isUserAdmin_def quiet_ret)
next
  case (Some g)
  have "quiet (try_catch
            (bnd (call_getGuildMember e g userId) (\<lambda>found.
             case found of
               None \<Rightarrow> ret False
             | Some m \<Rightarrow> ret (has_admin_role e config m)))
            (\<lambda>err. ret False))"
    by (intro quiet_try_catch quiet_bnd quiet_call_getGuildMember quiet_ret)
      (simp add: quiet_ret split: option.splits)
  then show ?thesis by (simp add: isUserAdmin_def Some)
qed

lemma quiet_resolve_displayName: "quiet (resolve_displayName e g user_id)"
  unfolding resolve_displayName_def
  by (intro quiet_try_catch quiet_bnd quiet_call_getGuildMember quiet_ret)
    (simp add: quiet_ret quiet_throw split: option.splits)

lemma quiet_notify: "quiet (notify e config session mode displayName user_id reason g)"
  unfolding notify_def
  by (intro quiet_if quiet_try_catch quiet_call_send quiet_ret)

lemma quiet_verify_kick: "quiet (verify_kick e config g user_id kicked)"
  unfolding verify_kick_def
  by (intro quiet_if quiet_bnd quiet_try_catch quiet_sleep quiet_call_getGuildMember quiet_ret)

lemma quiet_db_get_guild_settings: "quiet (db_get_guild_settings e g)"
  unfolding db_get_guild_settings_def by (rule quiet_db_call) simp

lemma quiet_db_get_whitelist: "quiet (db_get_whitelist e u)"
  unfolding db_get_whitelist_def by (rule quiet_db_call) simp

lemma quiet_db_get_active_user: "quiet (db_get_active_user e u)"
  unfolding db_get_active_user_def by (rule quiet_db_call) simp

text \<open>The removal loop, and how the result of \<open>checkAndHandleUser\<close> comes about.\<close>

lemma removal_justifiedI:
  assumes "\<And>w. \<exists>evs. history (snd (m w)) = history w @ evs \<and>
                 length (removal_attempts evs) \<le> n \<and>
                 (fst (m w) = Inr True \<longrightarrow> KickGuildMember g u True \<in> set evs)"
  shows "removal_justified g u n m"
  using assms by (simp add: removal_justified_def)

lemma removal_justifiedD:
  assumes "removal_justified g u n m" and "m w = (r, w')"
  obtains evs where "history w' = history w @ evs" and "length (removal_attempts evs) \<le> n"
    and "r = Inr True \<longrightarrow> KickGuildMember g u True \<in> set evs"
  using assms by (fastforce simp: removal_justified_def dest: spec [of _ w])

lemma removal_justified_ret_False: "removal_justified g u n (ret False)"
  by (simp add: removal_justified_def ret_def)

lemma removal_justified_if:
  "removal_justified g u n m \<Longrightarrow> removal_justified g u n m' \<Longrightarrow>
   removal_justified g u n (if c then m else m')"
  by simp

lemma removal_justified_after_quiet:
  assumes "quiet m" and "\<And>x. removal_justified g u n (f x)"
  shows "removal_justified g u n (bnd m f)"
proof (rule removal_justifiedI)
  fix w
  obtain r w' where mw: "m w = (r, w')"
    by (cases "m w")
  obtain evs where e1: "history w' = history w @ evs" "removal_attempts evs = []"
    using assms(1) mw by (rule quietD)
  show "\<exists>evs. history (snd (bnd m f w)) = history w @ evs \<and>
              length (removal_attempts evs) \<le> n \<and>
              (fst (bnd m f w) = Inr True \<longrightarrow> KickGuildMember g u True \<in> set evs)"
  proof (cases r)
    case (Inl err)
    then show ?thesis
      using mw e1 by (intro exI [of _ evs]) (simp add: bnd_def)
  next
    case (Inr x)
    obtain r2 w2 where fw: "f x w' = (r2, w2)"
      by (cases "f x w'")
    obtain evs2 where e2: "history w2 = history w' @ evs2" "length (removal_attempts evs2) \<le> n"
      "r2 = Inr True \<longrightarrow> KickGuildMember g u True \<in> set evs2"
      using assms(2) [of x] fw by (rule removal_justifiedD)
    show ?thesis
      using mw Inr fw e1 e2 by (intro exI [of _ "evs @ evs2"]) (simp add: bnd_def)
  qed
qed

lemma removal_justified_then_quiet:
  assumes "removal_justified g u n m" and "\<And>kicked. quiet (v kicked)"
  shows "removal_justified g u n (bnd m (\<lambda>kicked. bnd (v kicked) (\<lambda>_. ret kicked)))"
proof (rule removal_justifiedI)
  fix w
  let ?m' = "bnd m (\<lambda>kicked. bnd (v kicked) (\<lambda>_. ret kicked))"
  obtain r w' where mw: "m w = (r, w')"
    by (cases "m w")
  obtain evs where e1: "history w' = history w @ evs" "length (removal_attempts evs) \<le> n"
      "r = Inr True \<longrightarrow> KickGuildMember g u True \<in> set evs"
    using assms(1) mw by (rule removal_justifiedD)
  show "\<exists>evs. history (snd (?m' w)) = history w @ evs \<and>
              length (removal_attempts evs) \<le> n \<and>
              (fst (?m' w) = Inr True \<longrightarrow> KickGuildMember g u True \<in> set evs)"
  proof (cases r)
    case (Inl err)
    then show ?thesis
      using mw e1 by (intro exI [of _ evs]) (simp add: bnd_def)
  next
    case (Inr kicked)
    obtain r2 w2 where vw: "v kicked w' = (r2, w2)"
      by (cases "v kicked w'")
    obtain evs2 where e2: "history w2 = history w' @ evs2" "removal_attempts evs2 = []"
      using assms(2) [of kicked] vw by (rule quietD)
    have res: "?m' w = (case r2 of Inl err \<Rightarrow> (Inl err, w2) | Inr x \<Rightarrow> (Inr kicked, w2))"
      using mw Inr vw by (simp add: bnd_def ret_def split: sum.splits)
    show ?thesis
      using res Inr e1 e2 by (intro exI [of _ "evs @ evs2"]) (auto split: sum.splits)
  qed
qed

lemma kick_loop_justified:
  "removal_justified g user_id ((nat \<lceil>retryAttempts config\<rceil> - i)) (kick_loop e config g user_id displayName i)"
proof (rule removal_justifiedI)
  fix w
  show "\<exists>evs. history (snd (kick_loop e config g user_id displayName i w)) = history w @ evs \<and>
              length (removal_attempts evs) \<le> (nat \<lceil>retryAttempts config\<rceil> - i) \<and>
              (fst (kick_loop e config g user_id displayName i w) = Inr True \<longrightarrow>
                 KickGuildMember g user_id True \<in> set evs)"
  proof (induction e config g user_id displayName i w rule: kick_loop.induct)
    case (1 e config g user_id displayName i w)
    show ?case
    proof (cases "real i < retryAttempts config")
      case False
      then show ?thesis
        by (simp add: kick_loop.simps [of e config g user_id displayName i w])
    next
      case True
      then have pos: "Suc 0 \<le> nat \<lceil>retryAttempts config\<rceil> - i"
        by linarith
      show ?thesis
      proof (cases "kickGuildMember e (history w) g user_id")
        case None
        have "kick_loop e config g user_id displayName i w =
                (Inr True, record_event (KickGuildMember g user_id True) w)"
          using True None
          by (simp add: kick_loop.simps [of e config g user_id displayName i w] call_kickGuildMember_def)
        then show ?thesis
          using pos
          by (intro exI [of _ "[KickGuildMember g user_id True]"])
            (simp add: record_event_def removal_attempts_def)
      next
        case (Some msg)
        let ?w1 = "record_event (KickGuildMember g user_id False) w"
        let ?after = "if real i < retryAttempts config - 1 then sleep (retryDelay config) ?w1
                      else try_catch (call_send e None (fail_message config displayName (error_text (DirectoryError msg))))
                             (\<lambda>err'. ret ()) ?w1"
        have kick: "call_kickGuildMember e g user_id w = (Inl (DirectoryError msg), ?w1)"
          using Some by (simp add: call_kickGuildMember_def)
        have q: "quiet (\<lambda>w. if real i < retryAttempts config - 1 then sleep (retryDelay config) w
                      else try_catch (call_send e None (fail_message config displayName (error_text (DirectoryError msg))))
                             (\<lambda>err'. ret ()) w)"
          by (cases "real i < retryAttempts config - 1")
            (simp_all add: quiet_sleep quiet_try_catch quiet_call_send quiet_ret)
        obtain r2 w2 where after: "?after = (r2, w2)"
          by (cases ?after)
        obtain evs2 where e2: "history w2 = history ?w1 @ evs2" "removal_attempts evs2 = []"
          using q after by (rule quietD)
        show ?thesis
        proof (cases r2)
          case (Inl err')
          have "kick_loop e config g user_id displayName i w = (Inl err', w2)"
            using True kick after Inl
            by (simp add: kick_loop.simps [of e config g user_id displayName i w])
          then show ?thesis
            using e2 pos
            by (intro exI [of _ "KickGuildMember g user_id False # evs2"])
              (simp add: record_event_def removal_attempts_def)
        next
          case (Inr x)
          have again: "kick_loop e config g user_id displayName i w =
                         kick_loop e config g user_id displayName (i + 1) w2"
            using True kick after Inr
            by (simp add: kick_loop.simps [of e config g user_id displayName i w])
          obtain evs3 where e3: "history (snd (kick_loop e config g user_id displayName (i + 1) w2)) =
                                   history w2 @ evs3"
            "length (removal_attempts evs3) \<le> (nat \<lceil>retryAttempts config\<rceil> - (i + 1))"
            "fst (kick_loop e config g user_id displayName (i + 1) w2) = Inr True \<longrightarrow>
               KickGuildMember g user_id True \<in> set evs3"
            using "1.IH" [OF True kick [symmetric] refl after [symmetric] Inr] by blast
          have count: "Suc ((nat \<lceil>retryAttempts config\<rceil> - (i + 1))) = (nat \<lceil>retryAttempts config\<rceil> - i)"
            using True by linarith
          show ?thesis
            unfolding again
            using e2 e3 count
            by (intro exI [of _ "KickGuildMember g user_id False # evs2 @ evs3"])
              (auto simp: record_event_def removal_attempts_def)
        qed
      qed
    qed
  qed
qed

lemma checkAndHandleUser_justified:
  assumes "guild_of session = Some g"
  shows "removal_justified g user_id (nat \<lceil>retryAttempts config\<rceil>) (checkAndHandleUser e config session user_id)"
proof -
  have loop: "\<And>displayName. removal_justified g user_id (nat \<lceil>retryAttempts config\<rceil>)
                (bnd (kick_loop e config g user_id displayName 0) (\<lambda>kicked.
                 bnd (verify_kick e config g user_id kicked) (\<lambda>_. ret kicked)))"
    using kick_loop_justified [of g user_id config 0 e]
    by (intro removal_justified_then_quiet quiet_verify_kick) simp
  show ?thesis
    unfolding checkAndHandleUser_def assms option.case Let_def
    by (intro removal_justified_after_quiet removal_justified_if removal_justified_ret_False
        quiet_db_get_guild_settings quiet_db_get_whitelist quiet_db_get_active_user
        quiet_isUserAdmin quiet_resolve_displayName quiet_notify loop)
      (auto intro!: removal_justified_after_quiet removal_justified_if removal_justified_ret_False
        quiet_isUserAdmin quiet_resolve_displayName quiet_notify loop split: option.splits)
qed

lemma isUserAdmin_result:
  assumes "guild_of session = Some g"
  shows "isUserAdmin e session config user_id w =
           (Inr (admin_reply e config (getGuildMember e (history w) g user_id)),
            record_event (GetGuildMember g user_id) w)"
  using assms
  by (cases "getGuildMember e (history w) g user_id")
    (simp_all add: isUserAdmin_def try_catch_def bnd_def call_getGuildMember_def ret_def admin_reply_def)

lemma resolve_displayName_result:
  "resolve_displayName e g user_id w =
     (Inr (reply_displayName (getGuildMember e (history w) g user_id) user_id),
      record_event (GetGuildMember g user_id) w)"
  by (cases "getGuildMember e (history w) g user_id")
    (simp_all add: resolve_displayName_def try_catch_def bnd_def call_getGuildMember_def ret_def
      throw_def reply_displayName_def)

lemma failed_kick:
  assumes "removal_always_fails e g u"
  shows "call_kickGuildMember e g u w =
           (Inl (DirectoryError (removal_error e (history w) g u)),
            record_event (KickGuildMember g u False) w)"
proof -
  obtain msg where "kickGuildMember e (history w) g u = Some msg"
    using assms by (auto simp: removal_always_fails_def)
  then show ?thesis
    by (simp add: call_kickGuildMember_def removal_error_def)
qed

lemma failure_message_sent:
  "try_catch (call_send e None msg) (\<lambda>err'. ret ()) w = (Inr (), record_event (Send None msg) w)"
  by (simp add: try_catch_def call_send_def ret_def)

lemma history_record_event: "history (record_event ev w) = history w @ [ev]"
  by (simp add: record_event_def)

lemma kick_loop_three_failures:
  assumes three: "retryAttempts config = 3" and fails: "removal_always_fails e g user_id"
  shows "fst (kick_loop e config g user_id displayName 0 w) = Inr False \<and>
         history (snd (kick_loop e config g user_id displayName 0 w)) =
           history w @
             [KickGuildMember g user_id False, Sleep (retryDelay config),
              KickGuildMember g user_id False, Sleep (retryDelay config),
              KickGuildMember g user_id False,
              Send None (fail_message config displayName
                (removal_error e
                   (history w @
                      [KickGuildMember g user_id False, Sleep (retryDelay config),
                       KickGuildMember g user_id False, Sleep (retryDelay config)]) g user_id))]"
proof -
  let ?k = "KickGuildMember g user_id False" and ?s = "Sleep (retryDelay config)"
  let ?w2 = "record_event ?s (record_event ?k w)"
  let ?w4 = "record_event ?s (record_event ?k ?w2)"
  let ?w5 = "record_event ?k ?w4"
  let ?msg = "fail_message config displayName (removal_error e (history ?w4) g user_id)"
  let ?w6 = "record_event (Send None ?msg) ?w5"
  have r0: "kick_loop e config g user_id displayName 0 w =
              kick_loop e config g user_id displayName (Suc 0) ?w2"
    by (simp add: kick_loop.simps [of e config g user_id displayName 0 w] three
        failed_kick [OF fails] sleep_def)
  have r1: "kick_loop e config g user_id displayName (Suc 0) ?w2 =
              kick_loop e config g user_id displayName (Suc (Suc 0)) ?w4"
    by (simp add: kick_loop.simps [of e config g user_id displayName "Suc 0" ?w2] three
        failed_kick [OF fails] sleep_def)
  have r2: "kick_loop e config g user_id displayName (Suc (Suc 0)) ?w4 =
              kick_loop e config g user_id displayName (Suc (Suc (Suc 0))) ?w6"
    by (simp add: kick_loop.simps [of e config g user_id displayName "Suc (Suc 0)" ?w4] three
        failed_kick [OF fails] failure_message_sent error_text_def)
  have r3: "kick_loop e config g user_id displayName (Suc (Suc (Suc 0))) ?w6 = (Inr False, ?w6)"
    by (simp add: kick_loop.simps [of e config g user_id displayName "Suc (Suc (Suc 0))" ?w6] three)
  have run: "kick_loop e config g user_id displayName 0 w = (Inr False, ?w6)"
    by (simp only: r0 r1 r2 r3)
  show ?thesis
    unfolding run by (simp add: history_record_event)
qed

lemma enforcement_reached:
  assumes ok: "store_ok e" and g: "guild_of session = Some g"
    and mode: "effective_mode config w g = Kick"
    and unprotected: "user_id \<notin> set (array_or_empty (protectedUsers config))"
    and not_exempt: "blacklist_whitelist w user_id = None"
    and blocked: "blacklist_users w user_id = Some entry" and active: "\<not> bl_disabled entry"
    and not_admin: "\<not> admin_reply e config (getGuildMember e (history w @ three_reads) g user_id)"
  shows "\<exists>w5. history w5 = history w @ three_reads @ [GetGuildMember g user_id, GetGuildMember g user_id] \<and>
              checkAndHandleUser e config session user_id w =
                bnd (kick_loop e config g user_id
                       (reply_displayName
                          (getGuildMember e (history w @ three_reads @ [GetGuildMember g user_id]) g user_id)
                          user_id) 0)
                    (\<lambda>kicked. bnd (verify_kick e config g user_id kicked) (\<lambda>_. ret kicked)) w5"
proof -
  let ?w1 = "record_event (Db DbGet ''blacklist_guild_settings'') w"
  let ?w2 = "record_event (Db DbGet ''blacklist_whitelist'') ?w1"
  let ?w3 = "record_event (Db DbGet ''blacklist_users'') ?w2"
  let ?w4 = "record_event (GetGuildMember g user_id) ?w3"
  let ?w5 = "record_event (GetGuildMember g user_id) ?w4"
  let ?name = "reply_displayName (getGuildMember e (history ?w4) g user_id) user_id"
  have s1: "db_get_guild_settings e g w = (Inr (blacklist_guild_settings w g), ?w1)"
    by (simp add: db_get_guild_settings_def db_call_ok [OF ok] record_event_def)
  have s2: "db_get_whitelist e user_id ?w1 = (Inr None, ?w2)"
    using not_exempt by (simp add: db_get_whitelist_def db_call_ok [OF ok] record_event_def)
  have s3: "db_get_active_user e user_id ?w2 = (Inr (Some entry), ?w3)"
    using blocked active by (simp add: db_get_active_user_def db_call_ok [OF ok] record_event_def)
  have h3: "history ?w3 = history w @ three_reads"
    and h4: "history ?w4 = history w @ three_reads @ [GetGuildMember g user_id]"
    and h5: "history ?w5 = history w @ three_reads @ [GetGuildMember g user_id, GetGuildMember g user_id]"
    by (simp_all add: record_event_def three_reads_def)
  have s4: "isUserAdmin e session config user_id ?w3 = (Inr False, ?w4)"
    using isUserAdmin_result [OF g, of e config user_id ?w3] not_admin unfolding h3 by simp
  have s5: "resolve_displayName e g user_id ?w4 = (Inr ?name, ?w5)"
    by (rule resolve_displayName_result)
  have "checkAndHandleUser e config session user_id w =
          bnd (kick_loop e config g user_id ?name 0)
            (\<lambda>kicked. bnd (verify_kick e config g user_id kicked) (\<lambda>_. ret kicked)) ?w5"
    using mode unprotected
    by (simp add: checkAndHandleUser_def g Let_def effective_mode_def
        bnd_eq [of "db_get_guild_settings e g" w, OF s1]
        bnd_eq [of "db_get_whitelist e user_id" ?w1, OF s2]
        bnd_eq [of "db_get_active_user e user_id" ?w2, OF s3]
        bnd_eq [of "isUserAdmin e session config user_id" ?w3, OF s4]
        bnd_eq [of "resolve_displayName e g user_id" ?w4, OF s5]
        notify_def)
  then show ?thesis
    using h5 unfolding h4 by blast
qed

lemma kick_scenario:
  assumes ok: "store_ok e" and g: "guild_of session = Some g"
    and mode: "effective_mode config w g = Kick"
    and unprotected: "user_id \<notin> set (array_or_empty (protectedUsers config))"
    and not_exempt: "blacklist_whitelist w user_id = None"
    and blocked: "blacklist_users w user_id = Some entry" and active: "\<not> bl_disabled entry"
    and not_admin: "\<not> admin_reply e config (getGuildMember e (history w @ three_reads) g user_id)"
    and three: "retryAttempts config = 3" and fails: "removal_always_fails e g user_id"
  shows "fst (checkAndHandleUser e config session user_id w) = Inr False \<and>
         history (snd (checkAndHandleUser e config session user_id w)) =
           history w @ three_reads @
             [GetGuildMember g user_id, GetGuildMember g user_id,
              KickGuildMember g user_id False, Sleep (retryDelay config),
              KickGuildMember g user_id False, Sleep (retryDelay config),
              KickGuildMember g user_id False,
              Send None
                (fail_message config
                   (reply_displayName
                      (getGuildMember e (history w @ three_reads @ [GetGuildMember g user_id]) g user_id)
                      user_id)
                   (removal_error e
                      (history w @ three_reads @
                         [GetGuildMember g user_id, GetGuildMember g user_id,
                          KickGuildMember g user_id False, Sleep (retryDelay config),
                          KickGuildMember g user_id False, Sleep (retryDelay config)])
                      g user_id))]"
proof -
  let ?name = "reply_displayName
                 (getGuildMember e (history w @ three_reads @ [GetGuildMember g user_id]) g user_id) user_id"
  obtain w5 where h5: "history w5 = history w @ three_reads @ [GetGuildMember g user_id, GetGuildMember g user_id]"
    and run: "checkAndHandleUser e config session user_id w =
                bnd (kick_loop e config g user_id ?name 0)
                    (\<lambda>kicked. bnd (verify_kick e config g user_id kicked) (\<lambda>_. ret kicked)) w5"
    using enforcement_reached [OF ok g mode unprotected not_exempt blocked active not_admin] by blast
  let ?loop = "kick_loop e config g user_id ?name 0 w5"
  have s6: "fst ?loop = Inr False"
    and h6: "history (snd ?loop) =
           history w5 @
             [KickGuildMember g user_id False, Sleep (retryDelay config),
              KickGuildMember g user_id False, Sleep (retryDelay config),
              KickGuildMember g user_id False,
              Send None (fail_message config ?name
                (removal_error e
                   (history w5 @
                      [KickGuildMember g user_id False, Sleep (retryDelay config),
                       KickGuildMember g user_id False, Sleep (retryDelay config)]) g user_id))]"
    using kick_loop_three_failures [OF three fails, of ?name w5] by blast+
  have loop: "?loop = (Inr False, snd ?loop)"
    using s6 by (simp add: prod_eq_iff)
  have "checkAndHandleUser e config session user_id w = (Inr False, snd ?loop)"
    unfolding run
    by (simp add: bnd_eq [of "kick_loop e config g user_id ?name 0" w5, OF loop] verify_kick_def ret_def)
  then show ?thesis
    by (simp add: h6 h5)
qed

text \<open>A removal that fails once and then succeeds, and the verification that follows it.\<close>

lemma kick_loop_second_attempt:
  assumes budget: "1 < retryAttempts config"
    and first: "kickGuildMember e (history w) g user_id = Some msg"
    and second: "kickGuildMember e
                   (history w @ [KickGuildMember g user_id False, Sleep (retryDelay config)]) g user_id = None"
  shows "kick_loop e config g user_id displayName 0 w =
           (Inr True,
            record_event (KickGuildMember g user_id True)
              (record_event (Sleep (retryDelay config)) (record_event (KickGuildMember g user_id False) w)))"
proof -
  let ?w2 = "record_event (Sleep (retryDelay config)) (record_event (KickGuildMember g user_id False) w)"
  have h2: "history ?w2 = history w @ [KickGuildMember g user_id False, Sleep (retryDelay config)]"
    by (simp add: record_event_def)
  have r0: "kick_loop e config g user_id displayName 0 w =
              kick_loop e config g user_id displayName (Suc 0) ?w2"
    using budget first
    by (simp add: kick_loop.simps [of e config g user_id displayName 0 w] call_kickGuildMember_def sleep_def)
  have r1: "kick_loop e config g user_id displayName (Suc 0) ?w2 =
              (Inr True, record_event (KickGuildMember g user_id True) ?w2)"
    using budget second unfolding h2 [symmetric]
    by (simp add: kick_loop.simps [of e config g user_id displayName "Suc 0" ?w2] call_kickGuildMember_def)
  show ?thesis
    by (simp only: r0 r1)
qed

lemma yielding_run:
  "fst (checkAndHandleUser yielding_env example_config group_session ''666'' kick_world) = Inr True \<and>
   history (snd (checkAndHandleUser yielding_env example_config group_session ''666'' kick_world)) =
     [Db DbGet ''blacklist_guild_settings'', Db DbGet ''blacklist_whitelist'', Db DbGet ''blacklist_users'',
      GetGuildMember ''g1'' ''666'', GetGuildMember ''g1'' ''666'',
      KickGuildMember ''g1'' ''666'' False, Sleep 2000, KickGuildMember ''g1'' ''666'' True,
      Sleep 2000, GetGuildMember ''g1'' ''666'']"
proof -
  let ?name = "reply_displayName
                 (getGuildMember yielding_env
                    (history kick_world @ three_reads @ [GetGuildMember ''g1'' ''666'']) ''g1'' ''666'') ''666''"
  have hyps: "store_ok yielding_env" "guild_of group_session = Some ''g1''"
    "effective_mode example_config kick_world ''g1'' = Kick"
    "''666'' \<notin> set (array_or_empty (protectedUsers example_config))"
    "blacklist_whitelist kick_world ''666'' = None"
    "blacklist_users kick_world ''666'' = Some blocked_entry" "\<not> bl_disabled blocked_entry"
    "\<not> admin_reply yielding_env example_config
         (getGuildMember yielding_env (history kick_world @ three_reads) ''g1'' ''666'')"
    by (simp_all add: store_ok_def yielding_env_def quiet_env_def guild_of_def group_session_def
        effective_mode_def kick_world_def empty_world_def example_config_def array_or_empty_def
        blocked_entry_def admin_reply_def has_admin_role_def ordinary_member_def)
  obtain w5 where h5: "history w5 = history kick_world @ three_reads @
                         [GetGuildMember ''g1'' ''666'', GetGuildMember ''g1'' ''666'']"
    and run: "checkAndHandleUser yielding_env example_config group_session ''666'' kick_world =
                bnd (kick_loop yielding_env example_config ''g1'' ''666'' ?name 0)
                    (\<lambda>kicked. bnd (verify_kick yielding_env example_config ''g1'' ''666'' kicked)
                       (\<lambda>_. ret kicked)) w5"
    using enforcement_reached [OF hyps] by blast
  let ?w8 = "record_event (KickGuildMember ''g1'' ''666'' True)
              (record_event (Sleep (retryDelay example_config))
                 (record_event (KickGuildMember ''g1'' ''666'' False) w5))"
  have loop: "kick_loop yielding_env example_config ''g1'' ''666'' ?name 0 w5 = (Inr True, ?w8)"
    by (rule kick_loop_second_attempt [where msg = "''busy''"])
      (simp_all add: h5 example_config_def yielding_env_def three_reads_def kick_world_def empty_world_def)
  have h8: "history ?w8 =
     [Db DbGet ''blacklist_guild_settings'', Db DbGet ''blacklist_whitelist'', Db DbGet ''blacklist_users'',
      GetGuildMember ''g1'' ''666'', GetGuildMember ''g1'' ''666'',
      KickGuildMember ''g1'' ''666'' False, Sleep 2000, KickGuildMember ''g1'' ''666'' True]"
    by (simp add: record_event_def h5 three_reads_def kick_world_def empty_world_def example_config_def)
  have v: "bnd (verify_kick yielding_env example_config ''g1'' ''666'' True) (\<lambda>_. ret True) ?w8 =
             (Inr True, record_event (GetGuildMember ''g1'' ''666'') (record_event (Sleep 2000) ?w8))"
    by (simp add: verify_kick_def example_config_def bnd_def sleep_def try_catch_def
        call_getGuildMember_def yielding_env_def ret_def)
  have "checkAndHandleUser yielding_env example_config group_session ''666'' kick_world =
          (Inr True,
           record_event (GetGuildMember ''g1'' ''666'') (record_event (Sleep 2000) ?w8))"
    unfolding run
    by (simp only: bnd_eq [of "kick_loop yielding_env example_config ''g1'' ''666'' ?name 0" w5, OF loop] v)
  then show ?thesis
    using h8 by (simp add: record_event_def)
qed

lemma has_admin_role_folds_umlaut:
  "has_admin_role quiet_env umlaut_config umlaut_member"
  by code_simp

text \<open>
  C6. Scenario: the store does not fail, the group's mode is \<open>kick\<close>, the member is
  blocked (active entry), neither protected nor exempt nor, at the admin lookup, an
  admin, \<open>retryAttempts\<close> is 3 and every removal fails. Then \<open>checkAndHandleUser\<close>
  returns false, and what it does after its three store reads and two member lookups is:
  three failed removals with a sleep after the first and after the second, then one
  message, the failure template rendered with the display name that the second lookup
  gave and with the error of the third removal. No notification is sent.
  In general: when \<open>checkAndHandleUser\<close> returns true, a removal of that member
  succeeded during the call, and the call made no more removal attempts than
  \<open>retryAttempts\<close> allows (for a fractional count, the next integer above it).
\<close>

theorem kick_failure_and_result:
  "(store_ok e \<and> guild_of session = Some g \<and> effective_mode config w g = Kick \<and>
    user_id \<notin> set (array_or_empty (protectedUsers config)) \<and>
    blacklist_whitelist w user_id = None \<and>
    blacklist_users w user_id = Some entry \<and> \<not> bl_disabled entry \<and>
    \<not> admin_reply e config (getGuildMember e (history w @ three_reads) g user_id) \<and>
    retryAttempts config = 3 \<and> removal_always_fails e g user_id \<longrightarrow>
      fst (checkAndHandleUser e config session user_id w) = Inr False \<and>
      history (snd (checkAndHandleUser e config session user_id w)) =
        history w @ three_reads @
          [GetGuildMember g user_id, GetGuildMember g user_id,
           KickGuildMember g user_id False, Sleep (retryDelay config),
           KickGuildMember g user_id False, Sleep (retryDelay config),
           KickGuildMember g user_id False,
           Send None
             (fail_message config
                (reply_displayName
                   (getGuildMember e (history w @ three_reads @ [GetGuildMember g user_id]) g user_id)
                   user_id)
                (removal_error e
                   (history w @ three_reads @
                      [GetGuildMember g user_id, GetGuildMember g user_id,
                       KickGuildMember g user_id False, Sleep (retryDelay config),
                       KickGuildMember g user_id False, Sleep (retryDelay config)])
                   g user_id))]) \<and>
   (fst (checkAndHandleUser e config session user_id w) = Inr True \<longrightarrow>
      (\<exists>g' evs. guild_of session = Some g' \<and>
         history (snd (checkAndHandleUser e config session user_id w)) = history w @ evs \<and>
         KickGuildMember g' user_id True \<in> set evs \<and>
         length (removal_attempts evs) \<le> nat \<lceil>retryAttempts config\<rceil>))"
proof (intro conjI impI)
  assume a: "store_ok e \<and> guild_of session = Some g \<and> effective_mode config w g = Kick \<and>
    user_id \<notin> set (array_or_empty (protectedUsers config)) \<and>
    blacklist_whitelist w user_id = None \<and>
    blacklist_users w user_id = Some entry \<and> \<not> bl_disabled entry \<and>
    \<not> admin_reply e config (getGuildMember e (history w @ three_reads) g user_id) \<and>
    retryAttempts config = 3 \<and> removal_always_fails e g user_id"
  note s = kick_scenario [of e session g config w user_id entry]
  show "fst (checkAndHandleUser e config session user_id w) = Inr False"
    using a s by blast
  show "history (snd (checkAndHandleUser e config session user_id w)) =
        history w @ three_reads @
          [GetGuildMember g user_id, GetGuildMember g user_id,
           KickGuildMember g user_id False, Sleep (retryDelay config),
           KickGuildMember g user_id False, Sleep (retryDelay config),
           KickGuildMember g user_id False,
           Send None
             (fail_message config
                (reply_displayName
                   (getGuildMember e (history w @ three_reads @ [GetGuildMember g user_id]) g user_id)
                   user_id)
                (removal_error e
                   (history w @ three_reads @
                      [GetGuildMember g user_id, GetGuildMember g user_id,
                       KickGuildMember g user_id False, Sleep (retryDelay config),
                       KickGuildMember g user_id False, Sleep (retryDelay config)])
                   g user_id))]"
    using a s by blast
next
  assume kicked: "fst (checkAndHandleUser e config session user_id w) = Inr True"
  show "\<exists>g' evs. guild_of session = Some g' \<and>
         history (snd (checkAndHandleUser e config session user_id w)) = history w @ evs \<and>
         KickGuildMember g' user_id True \<in> set evs \<and>
         length (removal_attempts evs) \<le> nat \<lceil>retryAttempts config\<rceil>"
  proof (cases "guild_of session")
    case None
    then show ?thesis
      using kicked by (simp add: checkAndHandleUser_def ret_def)
  next
    case (Some g')
    obtain r w' where run: "checkAndHandleUser e config session user_id w = (r, w')"
      by (cases "checkAndHandleUser e config session user_id w")
    obtain evs where "history w' = history w @ evs"
      and "length (removal_attempts evs) \<le> nat \<lceil>retryAttempts config\<rceil>"
      and "r = Inr True \<longrightarrow> KickGuildMember g' user_id True \<in> set evs"
      using checkAndHandleUser_justified [OF Some] run by (rule removal_justifiedD)
    then show ?thesis
      using Some kicked run by auto
  qed
qed

theorem kick_failure_and_result_witness:
  "fst (checkAndHandleUser stubborn_env example_config group_session ''666'' kick_world) = Inr False \<and>
   history (snd (checkAndHandleUser stubborn_env example_config group_session ''666'' kick_world)) =
     [Db DbGet ''blacklist_guild_settings'', Db DbGet ''blacklist_whitelist'', Db DbGet ''blacklist_users'',
      GetGuildMember ''g1'' ''666'', GetGuildMember ''g1'' ''666'',
      KickGuildMember ''g1'' ''666'' False, Sleep 2000,
      KickGuildMember ''g1'' ''666'' False, Sleep 2000,
      KickGuildMember ''g1'' ''666'' False,
      Send None ''Cannot remove Mallory: no permission''] \<and>
   fst (checkAndHandleUser yielding_env example_config group_session ''666'' kick_world) = Inr True \<and>
   history (snd (checkAndHandleUser yielding_env example_config group_session ''666'' kick_world)) =
     [Db DbGet ''blacklist_guild_settings'', Db DbGet ''blacklist_whitelist'', Db DbGet ''blacklist_users'',
      GetGuildMember ''g1'' ''666'', GetGuildMember ''g1'' ''666'',
      KickGuildMember ''g1'' ''666'' False, Sleep 2000, KickGuildMember ''g1'' ''666'' True,
      Sleep 2000, GetGuildMember ''g1'' ''666''] \<and>
   (\<exists>evs. history (snd (checkAndHandleUser yielding_env example_config group_session ''666'' kick_world)) =
            history kick_world @ evs \<and>
          KickGuildMember ''g1'' ''666'' True \<in> set evs \<and> length (removal_attempts evs) \<le> 3)"
proof -
  have hyps: "store_ok stubborn_env \<and> guild_of group_session = Some ''g1'' \<and>
    effective_mode example_config kick_world ''g1'' = Kick \<and>
    ''666'' \<notin> set (array_or_empty (protectedUsers example_config)) \<and>
    blacklist_whitelist kick_world ''666'' = None \<and>
    blacklist_users kick_world ''666'' = Some blocked_entry \<and> \<not> bl_disabled blocked_entry \<and>
    \<not> admin_reply stubborn_env example_config
        (getGuildMember stubborn_env (history kick_world @ three_reads) ''g1'' ''666'') \<and>
    retryAttempts example_config = 3 \<and> removal_always_fails stubborn_env ''g1'' ''666''"
    by (simp add: store_ok_def stubborn_env_def quiet_env_def guild_of_def group_session_def
        effective_mode_def kick_world_def empty_world_def example_config_def array_or_empty_def
        blocked_entry_def admin_reply_def has_admin_role_def ordinary_member_def
        removal_always_fails_def)
  have msg: "fail_message example_config
               (reply_displayName
                  (getGuildMember stubborn_env
                     (history kick_world @ three_reads @ [GetGuildMember ''g1'' ''666'']) ''g1'' ''666'')
                  ''666'')
               (removal_error stubborn_env
                  (history kick_world @ three_reads @
                     [GetGuildMember ''g1'' ''666'', GetGuildMember ''g1'' ''666'',
                      KickGuildMember ''g1'' ''666'' False, Sleep (retryDelay example_config),
                      KickGuildMember ''g1'' ''666'' False, Sleep (retryDelay example_config)])
                  ''g1'' ''666'') =
             ''Cannot remove Mallory: no permission''"
    by (simp add: fail_message_def example_config_def js_replace_def stubborn_env_def
        reply_displayName_def displayName_of_def ordinary_member_def removal_error_def)
  have h0: "history kick_world = []" and delay: "retryDelay example_config = 2000"
    and g: "guild_of group_session = Some ''g1''" and n: "nat \<lceil>retryAttempts example_config\<rceil> = 3"
    by (simp_all add: kick_world_def empty_world_def example_config_def guild_of_def group_session_def)
  have failing: "fst (checkAndHandleUser stubborn_env example_config group_session ''666'' kick_world) = Inr False \<and>
     history (snd (checkAndHandleUser stubborn_env example_config group_session ''666'' kick_world)) =
       [Db DbGet ''blacklist_guild_settings'', Db DbGet ''blacklist_whitelist'', Db DbGet ''blacklist_users'',
        GetGuildMember ''g1'' ''666'', GetGuildMember ''g1'' ''666'',
        KickGuildMember ''g1'' ''666'' False, Sleep 2000,
        KickGuildMember ''g1'' ''666'' False, Sleep 2000,
        KickGuildMember ''g1'' ''666'' False,
        Send None ''Cannot remove Mallory: no permission'']"
    using kick_failure_and_result
            [of stubborn_env group_session "''g1''" example_config kick_world "''666''" blocked_entry]
          hyps
    unfolding msg by (simp add: h0 delay three_reads_def)
  have yielding: "\<exists>evs. history (snd (checkAndHandleUser yielding_env example_config group_session ''666'' kick_world)) =
            history kick_world @ evs \<and>
          KickGuildMember ''g1'' ''666'' True \<in> set evs \<and> length (removal_attempts evs) \<le> 3"
    using kick_failure_and_result
            [of yielding_env group_session "''g1''" example_config kick_world "''666''" blocked_entry]
          yielding_run g n
    by auto
  show ?thesis
    using failing yielding yielding_run by blast
qed

end
